theory Spec2Isabelle
  imports Complex_Main "HOL-Library.Sublist"
begin

section \<open>Numbers, errors and the library functions the code calls\<close>

text \<open>
  The program is Python over numpy arrays. Floating-point numbers are modelled as
  \<open>real\<close> (no rounding, no overflow), Python integers as \<open>int\<close>, array indices that
  have been checked to be non-negative as \<open>nat\<close>. A raise of the program or of a
  library function it calls is a value \<open>Inl e\<close> of the result type.
\<close>

datatype error = IndexError | ValueError

text \<open>
  \<^verbatim>\<open>sklearn.metrics.pairwise_distances(X, Y, metric="cosine")\<close> is library code: each row
  is divided by its Euclidean norm (a row of norm zero is left as it is), the distance is
  one minus the dot product of the normalised rows, clipped to the interval from 0 to 2.
  Rows are \<open>real list\<close>; the library rejects rows of different lengths, which callers
  here never produce, and \<open>zip\<close> truncates instead.
\<close>

definition dot :: "real list \<Rightarrow> real list \<Rightarrow> real" where
  "dot x y = sum_list (map (\<lambda>(a, b). a * b) (zip x y))"

definition normalize_row :: "real list \<Rightarrow> real list" where
  "normalize_row x = (let n = sqrt (dot x x) in if n = 0 then x else map (\<lambda>a. a / n) x)"

definition cosine_distance :: "real list \<Rightarrow> real list \<Rightarrow> real" where
  "cosine_distance x y = min 2 (max 0 (1 - dot (normalize_row x) (normalize_row y)))"

section \<open>Greedy diversification: \<open>diversify\<close>\<close>

text \<open>
  The inner \<^verbatim>\<open>for j ... : if alpha * distance_to_query[i] > retained_neighbor_distances[j]: break\<close>
  with its \<^verbatim>\<open>else\<close> branch: the loop breaks exactly when some retained candidate passes
  the test, and the \<^verbatim>\<open>else\<close> branch runs exactly when none does. The distance function
  is a parameter \<open>metric\<close>; the source uses the cosine distance.
\<close>

definition rejected :: "('v \<Rightarrow> 'v \<Rightarrow> real) \<Rightarrow> 'v \<Rightarrow> 'v list \<Rightarrow> real \<Rightarrow> nat \<Rightarrow> nat list \<Rightarrow> bool" where
  "rejected metric query_vector candidate_neighbor_vectors alpha i retained_neighbor_indices \<longleftrightarrow>
     list_ex (\<lambda>j. alpha * metric query_vector (candidate_neighbor_vectors ! i)
                   > metric (candidate_neighbor_vectors ! i) (candidate_neighbor_vectors ! j))
       retained_neighbor_indices"

text \<open>
  The outer loop \<^verbatim>\<open>for i, vector in enumerate(candidate_neighbor_vectors[1:], 1)\<close>, as a
  recursion over the indices still to visit. The cap is tested only after an append.
\<close>

fun diversify_loop :: "('v \<Rightarrow> 'v \<Rightarrow> real) \<Rightarrow> 'v \<Rightarrow> 'v list \<Rightarrow> real \<Rightarrow> int \<Rightarrow> nat list \<Rightarrow> nat list \<Rightarrow> nat list" where
  "diversify_loop metric q cands alpha max_candidates [] retained = retained"
| "diversify_loop metric q cands alpha max_candidates (i # rest) retained =
     (if rejected metric q cands alpha i retained
      then diversify_loop metric q cands alpha max_candidates rest retained
      else (let retained' = retained @ [i] in
            if int (length retained') \<ge> max_candidates then retained'
            else diversify_loop metric q cands alpha max_candidates rest retained'))"

text \<open>
  \<^verbatim>\<open>pairwise_distances\<close> raises \<^verbatim>\<open>ValueError\<close> on an empty candidate array, before
  anything is retained.
\<close>

definition diversify :: "('v \<Rightarrow> 'v \<Rightarrow> real) \<Rightarrow> 'v \<Rightarrow> 'v list \<Rightarrow> real \<Rightarrow> int \<Rightarrow> error + nat list" where
  "diversify metric query_vector candidate_neighbor_vectors alpha max_candidates =
     (if candidate_neighbor_vectors = [] then Inl ValueError
      else Inr (diversify_loop metric query_vector candidate_neighbor_vectors alpha max_candidates
                  [1 ..< length candidate_neighbor_vectors] [0]))"

section \<open>The aggregator: \<open>layer_from_clustering\<close>\<close>

text \<open>
  The accumulator arrays of the source, all of length \<open>n_clusters\<close>. A numpy row is a
  \<open>real list\<close>; a Python set of document indices is a \<open>nat set\<close>, a set of cluster
  labels an \<open>int set\<close>.
\<close>

record accumulators =
  average_vectors :: "real list list"
  average_locations :: "real list list"
  total_weights :: "real list"
  pointsets :: "nat set list"
  metaclusters :: "int set list"

definition row_add :: "real list \<Rightarrow> real list \<Rightarrow> real list" where
  "row_add x y = map (\<lambda>(a, b). a + b) (zip x y)"

definition row_scale :: "real \<Rightarrow> real list \<Rightarrow> real list" where
  "row_scale w x = map (\<lambda>a. w * a) x"

text \<open>\<^verbatim>\<open>point_vectors.shape[1]\<close>: the common length of the rows.\<close>

definition row_width :: "real list list \<Rightarrow> nat" where
  "row_width rows = (case rows of [] \<Rightarrow> 0 | r # _ \<Rightarrow> length r)"

text \<open>
  The body of \<^verbatim>\<open>for i in range(cluster_label_vector.shape[0])\<close>. The source indexes
  without a check (the function is compiled, and an index past the end is not caught);
  here every array access is guarded and an index out of range is \<open>Inl IndexError\<close>.
  The index \<open>i\<close> is in range of \<open>cluster_label_vector\<close> by the loop bound.
\<close>

definition accumulate_point ::
  "real list list \<Rightarrow> real list list \<Rightarrow> int list \<Rightarrow> real list \<Rightarrow> int list \<Rightarrow> real
     \<Rightarrow> nat \<Rightarrow> accumulators \<Rightarrow> error + accumulators" where
  "accumulate_point point_vectors point_locations cluster_label_vector cluster_membership_vector
       base_clusters membership_strength_threshold i acc =
     (let cluster_num = cluster_label_vector ! i in
      if cluster_num \<ge> 0 then
        (let c = nat cluster_num in
         if c < length (total_weights acc) \<and> c < length (average_vectors acc)
            \<and> c < length (average_locations acc)
            \<and> i < length cluster_membership_vector \<and> i < length point_vectors
            \<and> i < length point_locations
         then
           (let w = cluster_membership_vector ! i;
                acc1 = acc\<lparr>
                  average_vectors := (average_vectors acc)
                    [c := row_add (average_vectors acc ! c) (row_scale w (point_vectors ! i))],
                  average_locations := (average_locations acc)
                    [c := row_add (average_locations acc ! c) (row_scale w (point_locations ! i))],
                  total_weights := (total_weights acc)[c := total_weights acc ! c + w]\<rparr>
            in
            if w > membership_strength_threshold then
              (if c < length (pointsets acc1) \<and> c < length (metaclusters acc1)
                  \<and> i < length base_clusters
               then
                 (let acc2 = acc1\<lparr>pointsets := (pointsets acc1)[c := insert i (pointsets acc1 ! c)]\<rparr>;
                      sub_cluster = base_clusters ! i
                  in
                  if sub_cluster \<noteq> - 1
                  then Inr (acc2\<lparr>metaclusters :=
                              (metaclusters acc2)[c := insert sub_cluster (metaclusters acc2 ! c)]\<rparr>)
                  else Inr acc2)
               else Inl IndexError)
            else Inr acc1)
         else Inl IndexError)
      else Inr acc)"

fun accumulate_points ::
  "real list list \<Rightarrow> real list list \<Rightarrow> int list \<Rightarrow> real list \<Rightarrow> int list \<Rightarrow> real
     \<Rightarrow> nat list \<Rightarrow> accumulators \<Rightarrow> error + accumulators" where
  "accumulate_points pv pl labels strengths base thr [] acc = Inr acc"
| "accumulate_points pv pl labels strengths base thr (i # rest) acc =
     (case accumulate_point pv pl labels strengths base thr i acc of
        Inl e \<Rightarrow> Inl e
      | Inr acc' \<Rightarrow> accumulate_points pv pl labels strengths base thr rest acc')"

text \<open>
  \<^verbatim>\<open>average_vectors[c] /= total_weights[c]\<close>. A floating-point division by zero raises
  nothing here and leaves a row that holds no numbers (nan or infinities); that row is
  \<open>None\<close>.
\<close>

definition divide_row :: "real list \<Rightarrow> real \<Rightarrow> real list option" where
  "divide_row r w = (if w = 0 then None else Some (map (\<lambda>a. a / w) r))"

record layer =
  layer_vectors :: "real list option list"
  layer_locations :: "real list option list"
  layer_pointsets :: "nat set list"
  layer_metaclusters :: "int set list"

text \<open>
  \<^verbatim>\<open>n_clusters = len(set(cluster_label_vector)) - 1\<close>; \<^verbatim>\<open>np.zeros\<close> raises
  \<^verbatim>\<open>ValueError\<close> on a negative length.
\<close>

definition layer_from_clustering ::
  "real list list \<Rightarrow> real list list \<Rightarrow> int list \<Rightarrow> real list \<Rightarrow> int list \<Rightarrow> real
     \<Rightarrow> error + layer" where
  "layer_from_clustering point_vectors point_locations cluster_label_vector
       cluster_membership_vector base_clusters membership_strength_threshold =
     (let n_clusters = int (card (set cluster_label_vector)) - 1 in
      if n_clusters < 0 then Inl ValueError
      else
        (let n = nat n_clusters;
             acc0 = \<lparr>average_vectors = replicate n (replicate (row_width point_vectors) 0),
                     average_locations = replicate n (replicate (row_width point_locations) 0),
                     total_weights = replicate n 0,
                     pointsets = replicate n {},
                     metaclusters = replicate n {}\<rparr>
         in
         case accumulate_points point_vectors point_locations cluster_label_vector
                cluster_membership_vector base_clusters membership_strength_threshold
                [0 ..< length cluster_label_vector] acc0 of
           Inl e \<Rightarrow> Inl e
         | Inr acc \<Rightarrow>
             Inr \<lparr>layer_vectors = map (\<lambda>(r, w). divide_row r w)
                                      (zip (average_vectors acc) (total_weights acc)),
                  layer_locations = map (\<lambda>(r, w). divide_row r w)
                                      (zip (average_locations acc) (total_weights acc)),
                  layer_pointsets = pointsets acc,
                  layer_metaclusters = metaclusters acc\<rparr>))"

text \<open>
  What the aggregation is meant to compute, for stating its correctness: the documents
  among the first \<open>m\<close> with label \<open>c\<close>; the strength-weighted sum of their rows;
  and the two invariants of the accumulation loop after \<open>m\<close> documents.
\<close>

definition members :: "int list \<Rightarrow> nat \<Rightarrow> nat \<Rightarrow> nat set" where
  "members labels m c = {i. i < m \<and> labels ! i = int c}"

definition weighted_row :: "real list \<Rightarrow> real list list \<Rightarrow> nat set \<Rightarrow> real list" where
  "weighted_row strengths rows M =
     map (\<lambda>k. \<Sum>i\<in>M. strengths ! i * rows ! i ! k) [0 ..< row_width rows]"

definition aggregated_sums ::
  "real list list \<Rightarrow> real list list \<Rightarrow> int list \<Rightarrow> real list \<Rightarrow> nat \<Rightarrow> nat \<Rightarrow> accumulators \<Rightarrow> bool" where
  "aggregated_sums pv pl labels strengths n m acc \<longleftrightarrow>
     length (average_vectors acc) = n \<and> length (average_locations acc) = n
     \<and> length (total_weights acc) = n
     \<and> (\<forall>c < n.
          average_vectors acc ! c = weighted_row strengths pv (members labels m c)
          \<and> average_locations acc ! c = weighted_row strengths pl (members labels m c)
          \<and> total_weights acc ! c = (\<Sum>i\<in>members labels m c. strengths ! i))"

definition aggregated_sets ::
  "int list \<Rightarrow> real list \<Rightarrow> int list \<Rightarrow> real \<Rightarrow> nat \<Rightarrow> nat \<Rightarrow> accumulators \<Rightarrow> bool" where
  "aggregated_sets labels strengths base thr n m acc \<longleftrightarrow>
     length (pointsets acc) = n \<and> length (metaclusters acc) = n
     \<and> (\<forall>c < n.
          pointsets acc ! c = {i \<in> members labels m c. strengths ! i > thr}
          \<and> metaclusters acc ! c
              = (\<lambda>i. base ! i) ` {i \<in> members labels m c. strengths ! i > thr \<and> base ! i \<noteq> - 1})"

section \<open>The layer builder: \<open>build_cluster_layers\<close>\<close>

text \<open>
  The clustering library and numpy are outside the repository. The builder uses them
  through two functions, taken as parameters:
  \<^item> \<open>condense m\<close>: the label vector and the membership-strength vector obtained from
    the one linkage tree built before the loop, by \<^verbatim>\<open>condense_tree\<close> at minimum cluster
    size \<open>m\<close>, \<^verbatim>\<open>extract_leaves\<close>, \<^verbatim>\<open>get_cluster_label_vector\<close> and
    \<^verbatim>\<open>get_point_membership_strength_vector\<close>;
  \<^item> \<open>quantile xs q\<close>: \<^verbatim>\<open>np.quantile(xs, q)\<close>, \<open>None\<close> when it raises or returns nan
    (then \<^verbatim>\<open>int(...)\<close> raises \<^verbatim>\<open>ValueError\<close>).
\<close>

record clustering_library =
  condense :: "int \<Rightarrow> int list \<times> real list"
  quantile :: "nat list \<Rightarrow> real \<Rightarrow> real option"

text \<open>The four lists the builder appends to, one entry per layer, fine to coarse.\<close>

record layer_lists =
  vector_layers :: "real list option list list"
  location_layers :: "real list option list list"
  pointset_layers :: "nat set list list"
  metacluster_layers :: "int set list list"

text \<open>
  \<^verbatim>\<open>[x for x, select in zip(xs, selection) if select]\<close> and the boolean-mask indexing
  \<^verbatim>\<open>layer_vectors[layer_metacluster_selection]\<close>.
\<close>

definition select_rows :: "bool list \<Rightarrow> 'a list \<Rightarrow> 'a list" where
  "select_rows selection xs = map fst (filter snd (zip xs selection))"

text \<open>
  The \<^verbatim>\<open>if not base_layer:\<close> block. \<^verbatim>\<open>list(x)\<close> keeps the elements of the set; the
  order of a Python set is not modelled, so the layer keeps sets.
\<close>

definition drop_passthrough :: "layer \<Rightarrow> layer" where
  "drop_passthrough l =
     (let layer_metacluster_selection = map (\<lambda>x. card x > 1) (layer_metaclusters l) in
      \<lparr>layer_vectors = select_rows layer_metacluster_selection (layer_vectors l),
       layer_locations = select_rows layer_metacluster_selection (layer_locations l),
       layer_pointsets = select_rows layer_metacluster_selection (layer_pointsets l),
       layer_metaclusters = select_rows layer_metacluster_selection (layer_metaclusters l)\<rparr>)"

definition append_layer :: "layer_lists \<Rightarrow> layer \<Rightarrow> layer_lists" where
  "append_layer ls l =
     \<lparr>vector_layers = vector_layers ls @ [layer_vectors l],
      location_layers = location_layers ls @ [layer_locations l],
      pointset_layers = pointset_layers ls @ [layer_pointsets l],
      metacluster_layers = metacluster_layers ls @ [layer_metaclusters l]\<rparr>"

text \<open>Python's \<^verbatim>\<open>int(x)\<close> on a float: truncation towards zero.\<close>

definition py_int :: "real \<Rightarrow> int" where
  "py_int x = (if x \<ge> 0 then \<lfloor>x\<rfloor> else \<lceil>x\<rceil>)"

text \<open>
  The \<^verbatim>\<open>while n_clusters_in_layer >= min_clusters:\<close> loop. Nothing in the source bounds
  the number of iterations, so the model takes fuel: \<open>None\<close> is a run that has not left
  the loop within \<open>fuel\<close> iterations. \<^verbatim>\<open>np.max\<close> raises \<^verbatim>\<open>ValueError\<close> on an empty array.
  \<open>base_clusters\<close> is the copy of the first label vector made before the loop; the loop
  never assigns it.
\<close>

fun build_loop ::
  "clustering_library \<Rightarrow> real list list \<Rightarrow> real list list \<Rightarrow> int list \<Rightarrow> int \<Rightarrow> real \<Rightarrow> real
     \<Rightarrow> nat \<Rightarrow> int list \<Rightarrow> real list \<Rightarrow> int \<Rightarrow> bool \<Rightarrow> layer_lists
     \<Rightarrow> (error + layer_lists) option" where
  "build_loop lib pv pl base_clusters min_clusters thr q fuel clusters point_probs
       n_clusters_in_layer base_layer ls =
     (if n_clusters_in_layer \<ge> min_clusters then
        (case fuel of
           0 \<Rightarrow> None
         | Suc fuel' \<Rightarrow>
             (case layer_from_clustering pv pl clusters point_probs base_clusters thr of
                Inl e \<Rightarrow> Some (Inl e)
              | Inr l0 \<Rightarrow>
                  (let l = (if \<not> base_layer then drop_passthrough l0 else l0);
                       ls' = append_layer ls l
                   in
                   case quantile lib (map card (layer_pointsets l)) q of
                     None \<Rightarrow> Some (Inl ValueError)
                   | Some x \<Rightarrow>
                       (let min_cluster_size = py_int x;
                            (clusters', point_probs') = condense lib min_cluster_size
                        in
                        if clusters' = [] then Some (Inl ValueError)
                        else build_loop lib pv pl base_clusters min_clusters thr q fuel'
                               clusters' point_probs' (Max (set clusters') + 1) False ls'))))
      else Some (Inr ls))"

text \<open>
  \<^verbatim>\<open>cluster_ids = np.unique(clusters[clusters >= 0])\<close> and
  \<^verbatim>\<open>n_clusters_in_layer = cluster_ids.shape[0]\<close> before the loop.
\<close>

definition build_cluster_layers ::
  "clustering_library \<Rightarrow> nat \<Rightarrow> real list list \<Rightarrow> real list list \<Rightarrow> int \<Rightarrow> int \<Rightarrow> real \<Rightarrow> real
     \<Rightarrow> (error + layer_lists) option" where
  "build_cluster_layers lib fuel point_vectors point_locations min_clusters base_min_cluster_size
       membership_strength_threshold next_cluster_size_quantile =
     (let (clusters, point_probs) = condense lib base_min_cluster_size;
          base_clusters = clusters;
          n_clusters_in_layer = int (card (set (filter (\<lambda>l. l \<ge> 0) clusters)))
      in
      build_loop lib point_vectors point_locations base_clusters min_clusters
        membership_strength_threshold next_cluster_size_quantile fuel clusters point_probs
        n_clusters_in_layer True
        \<lparr>vector_layers = [], location_layers = [], pointset_layers = [],
         metacluster_layers = []\<rparr>)"

text \<open>
  Two predicates on the metacluster sets: every set of a layer lies within a set \<open>B\<close>
  of labels; and every layer after the first holds only sets of at least two labels
  (with no layer yet while the base layer is still to come).
\<close>

definition meta_within :: "int set \<Rightarrow> int set list \<Rightarrow> bool" where
  "meta_within B ms \<longleftrightarrow> (\<forall>m\<in>set ms. m \<subseteq> B)"

definition later_layers_merge :: "bool \<Rightarrow> int set list list \<Rightarrow> bool" where
  "later_layers_merge base_layer mls \<longleftrightarrow>
     (base_layer \<longrightarrow> mls = []) \<and>
     (\<forall>k. 0 < k \<and> k < length mls \<longrightarrow> (\<forall>m\<in>set (mls ! k). 2 \<le> card m))"

text \<open>
  \<^verbatim>\<open>np.quantile\<close> with its default linear interpolation, for the example runs below:
  on the sorted values, position \<open>q * (n - 1)\<close>, interpolating between the two
  neighbours. It raises on an empty list and on \<open>q\<close> outside the unit interval.
\<close>

definition linear_quantile :: "nat list \<Rightarrow> real \<Rightarrow> real option" where
  "linear_quantile xs q =
     (if xs = [] \<or> q < 0 \<or> q > 1 then None
      else
        (let s = sort (map real xs);
             h = q * real (length xs - 1);
             j = nat \<lfloor>h\<rfloor>;
             lo = s ! j;
             hi = s ! min (j + 1) (length xs - 1)
         in Some (lo + (h - real j) * (hi - lo))))"

text \<open>
  An example run: nine documents, the last one noise at every threshold, and a library
  whose condensations at the sizes 1, 2, 3, 4 are the four label vectors below, every
  membership strength being 1.
\<close>

definition example_labels :: "int \<Rightarrow> int list" where
  "example_labels m =
     (if m = 1 then [0, 0, 1, 2, 2, 3, 3, - 1, - 1]
      else if m = 2 then [0, 0, 0, 1, 1, 2, 2, - 1, - 1]
      else if m = 3 then [0, 0, 0, 1, 1, 1, 1, 0, - 1]
      else [0, 0, 0, 0, 0, 0, 0, 0, - 1])"

definition example_library :: clustering_library where
  "example_library =
     \<lparr>condense = (\<lambda>m. (example_labels m, replicate 9 1)), quantile = linear_quantile\<rparr>"

definition example_points :: "real list list" where
  "example_points = [[0], [1], [2], [3], [4], [5], [6], [7], [8]]"

text \<open>The number of clusters of each layer, and the layers of the example run.\<close>

definition cluster_counts :: "layer_lists \<Rightarrow> nat list" where
  "cluster_counts ls = map length (pointset_layers ls)"

definition example_layers :: layer_lists where
  "example_layers =
     \<lparr>vector_layers =
        [[Some [1 / 2], Some [2], Some [7 / 2], Some [11 / 2]], [Some [1]],
         [Some [5 / 2], Some [9 / 2]]],
      location_layers =
        [[Some [1 / 2], Some [2], Some [7 / 2], Some [11 / 2]], [Some [1]],
         [Some [5 / 2], Some [9 / 2]]],
      pointset_layers =
        [[{0, 1}, {2}, {3, 4}, {5, 6}], [{0, 1, 2}], [{0, 1, 2, 7}, {3, 4, 5, 6}]],
      metacluster_layers =
        [[{0}, {1}, {2}, {3}], [{0, 1}], [{0, 1}, {2, 3}]]\<rparr>"

section \<open>The neighbour table of \<open>fit_clusters\<close>\<close>

text \<open>
  \<^verbatim>\<open>sklearn.metrics.pairwise_distances(layer, metric="cosine")\<close> with one argument: the
  matrix of cosine distances between the rows, its diagonal set to zero.
\<close>

definition pairwise_cosine :: "real list list \<Rightarrow> nat \<Rightarrow> nat \<Rightarrow> real" where
  "pairwise_cosine rows i j = (if i = j then 0 else cosine_distance (rows ! i) (rows ! j))"

text \<open>
  \<^verbatim>\<open>np.argsort\<close> of one row of numbers: the indices in order of ascending value. Equal
  values are kept in index order here; numpy's default sort promises no order among them.
\<close>

definition argsort :: "real list \<Rightarrow> nat list" where
  "argsort xs = sort_key (\<lambda>i. xs ! i) [0 ..< length xs]"

text \<open>\<^verbatim>\<open>np.argsort(pairwise_distances(layer, metric="cosine"), axis=1)[:, :16]\<close>\<close>

definition cluster_neighbours :: "real list list \<Rightarrow> nat list list" where
  "cluster_neighbours rows =
     map (\<lambda>i. take 16 (argsort (map (pairwise_cosine rows i) [0 ..< length rows])))
       [0 ..< length rows]"

text \<open>
  The comprehension \<^verbatim>\<open>for layer in vector_layers\<close>. The library raises \<^verbatim>\<open>ValueError\<close>
  on a layer without rows and on a row that holds no numbers.
\<close>

fun layer_cluster_neighbours :: "real list option list list \<Rightarrow> error + nat list list list" where
  "layer_cluster_neighbours [] = Inr []"
| "layer_cluster_neighbours (l # ls) =
     (if l = [] \<or> None \<in> set l then Inl ValueError
      else (case layer_cluster_neighbours ls of
              Inl e \<Rightarrow> Inl e
            | Inr t \<Rightarrow> Inr (cluster_neighbours (map the l) # t)))"

section \<open>Prompt shrinking in \<open>fit_base_level_prompts\<close>\<close>

text \<open>
  The language model and the prompt template are outside the core. \<open>build_base_prompt c d\<close>
  is the prompt of cluster \<open>c\<close> built with at most \<open>d\<close> documents per cluster (the other
  arguments do not change during a call); \<open>tokenize\<close>, \<open>detokenize\<close> and \<open>n_ctx\<close> are
  the model's.
\<close>

record prompt_env =
  build_base_prompt :: "nat \<Rightarrow> int \<Rightarrow> string"
  tokenize :: "string \<Rightarrow> nat list"
  detokenize :: "nat list \<Rightarrow> string"
  n_ctx :: nat

text \<open>\<^verbatim>\<open>return llm.detokenize(tokenized[:token_trim_length])\<close>\<close>

definition trim_text :: "prompt_env \<Rightarrow> string \<Rightarrow> nat \<Rightarrow> string" where
  "trim_text env text token_trim_length = detokenize env (take token_trim_length (tokenize env text))"

text \<open>
  The loop \<^verbatim>\<open>while prompt_length > self.llm.n_ctx():\<close>, with fuel; \<open>None\<close> is a run still
  inside the loop when the fuel is used up. \<open>prompt_length\<close> is assigned from the prompt
  just built, before the trimming, and the body has no \<^verbatim>\<open>break\<close>. \<^verbatim>\<open>//\<close> on Python
  integers rounds down, as \<open>div\<close> on \<open>int\<close> does.
\<close>

fun shrink_loop :: "prompt_env \<Rightarrow> nat \<Rightarrow> nat \<Rightarrow> string \<Rightarrow> nat \<Rightarrow> int \<Rightarrow> string option" where
  "shrink_loop env cluster_id fuel prompt prompt_length reduced_docs_per_cluster =
     (if prompt_length > n_ctx env then
        (case fuel of
           0 \<Rightarrow> None
         | Suc fuel' \<Rightarrow>
             (let reduced = reduced_docs_per_cluster div 2;
                  prompt1 = build_base_prompt env cluster_id reduced;
                  prompt_length1 = length (tokenize env prompt1);
                  prompt2 = (if reduced < 1 then trim_text env prompt1 (n_ctx env) else prompt1)
              in shrink_loop env cluster_id fuel' prompt2 prompt_length1 reduced))
      else Some prompt)"

definition cluster_prompt :: "prompt_env \<Rightarrow> nat \<Rightarrow> int \<Rightarrow> nat \<Rightarrow> string option" where
  "cluster_prompt env fuel max_docs_per_cluster cluster_id =
     (let prompt = build_base_prompt env cluster_id max_docs_per_cluster;
          prompt_length = length (tokenize env prompt)
      in shrink_loop env cluster_id fuel prompt prompt_length max_docs_per_cluster)"

text \<open>
  \<^verbatim>\<open>for cluster_id in range(layer_size): ...; prompts.append(prompt)\<close>: the list of
  prompts, or \<open>None\<close> when some cluster's loop has not returned.
\<close>

fun collect_prompts :: "prompt_env \<Rightarrow> nat \<Rightarrow> int \<Rightarrow> nat list \<Rightarrow> string list option" where
  "collect_prompts env fuel max_docs [] = Some []"
| "collect_prompts env fuel max_docs (c # cs) =
     (case cluster_prompt env fuel max_docs c of
        None \<Rightarrow> None
      | Some p \<Rightarrow> map_option ((#) p) (collect_prompts env fuel max_docs cs))"

definition fit_base_level_prompts :: "prompt_env \<Rightarrow> nat \<Rightarrow> nat \<Rightarrow> int \<Rightarrow> string list option" where
  "fit_base_level_prompts env fuel layer_size max_docs_per_cluster =
     collect_prompts env fuel max_docs_per_cluster [0 ..< layer_size]"

text \<open>
  An example model: one token per character, a context window of three tokens, and a
  prompt whose fixed text alone has five characters.
\<close>

definition example_prompt_env :: prompt_env where
  "example_prompt_env =
     \<lparr>build_base_prompt = (\<lambda>c d. ''is:'' @ replicate (nat d + 2) (CHR ''x'')),
      tokenize = map of_char, detokenize = map char_of, n_ctx = 3\<rparr>"

section \<open>Name deduplication: \<open>clean_topic_names\<close>\<close>

text \<open>
  \<^verbatim>\<open>string.punctuation + string.whitespace\<close>, by character code: the ASCII punctuation
  ranges, the space and the control characters tab to carriage return.
\<close>

definition strip_char :: "char \<Rightarrow> bool" where
  "strip_char c =
     (let n = (of_char c :: nat) in
      (33 \<le> n \<and> n \<le> 47) \<or> (58 \<le> n \<and> n \<le> 64) \<or> (91 \<le> n \<and> n \<le> 96)
      \<or> (123 \<le> n \<and> n \<le> 126) \<or> n = 32 \<or> (9 \<le> n \<and> n \<le> 13))"

text \<open>\<^verbatim>\<open>s.strip(chars)\<close>: drop the characters of \<open>chars\<close> from both ends.\<close>

definition py_strip :: "(char \<Rightarrow> bool) \<Rightarrow> string \<Rightarrow> string" where
  "py_strip chars s = rev (dropWhile chars (rev (dropWhile chars s)))"

text \<open>
  The completion call and \<^verbatim>\<open>string.capwords\<close> are library code. The prompt of a remedy
  request holds a random sample of sentences and the model samples its reply, so the
  replies are a sequence: \<open>complete k\<close> is the text returned by the \<open>k\<close>-th request of
  the pass. Building the remedy prompt is part of the request.
\<close>

record naming_env =
  complete :: "nat \<Rightarrow> string"
  capwords :: "string \<Rightarrow> string"

text \<open>
  \<^verbatim>\<open>if "\n" in unique_name: unique_name = unique_name.lstrip("\n "); unique_name = unique_name.split("\n")[0]\<close>
  and then \<^verbatim>\<open>string.capwords(unique_name.strip(string.punctuation + string.whitespace))\<close>.
\<close>

definition tidy_reply :: "naming_env \<Rightarrow> string \<Rightarrow> string" where
  "tidy_reply env reply =
     (let nl = char_of (10 :: nat);
          first_line = (if nl \<in> set reply
                        then takeWhile (\<lambda>c. c \<noteq> nl) (dropWhile (\<lambda>c. c = nl \<or> c = CHR '' '') reply)
                        else reply)
      in capwords env (py_strip strip_char first_line))"

text \<open>
  \<^verbatim>\<open>while unique_name in unique_names and n_attempts < 8:\<close>. The list
  \<open>original_topic_names\<close> only goes into the prompt and is left out. The result is the
  name, the number of attempts and the number of requests made so far.
\<close>

function remedy_loop :: "naming_env \<Rightarrow> string set \<Rightarrow> string \<Rightarrow> nat \<Rightarrow> nat \<Rightarrow> string \<times> nat \<times> nat" where
  "remedy_loop env unique_names unique_name n_attempts requests =
     (if unique_name \<in> unique_names \<and> n_attempts < 8
      then remedy_loop env unique_names (tidy_reply env (complete env requests))
             (Suc n_attempts) (Suc requests)
      else (unique_name, n_attempts, requests))"
  by pat_completeness auto
termination
  by (relation "measure (\<lambda>(env, us, u, a, r). 8 - a)") auto

text \<open>
  The state of the pass. \<open>committed\<close> is not a variable of the source: it records, for
  each cluster in processing order, the layer, the cluster index and the values of
  \<open>unique_name\<close> and \<open>n_attempts\<close> when \<^verbatim>\<open>unique_names.add(unique_name)\<close> runs.
\<close>

record dedup_state =
  unique_names :: "string set"
  requests :: nat
  layer_clusters :: "string list list"
  committed :: "(nat \<times> nat \<times> string \<times> nat) list"

text \<open>
  The body of the inner \<^verbatim>\<open>for\<close> loop for cluster \<open>i\<close> of layer \<open>n\<close>. The assignment
  \<^verbatim>\<open>self.layer_clusters[n][indices] = unique_name\<close> raises \<^verbatim>\<open>IndexError\<close> on a document
  index out of range.
\<close>

definition clean_cluster :: "naming_env \<Rightarrow> nat \<Rightarrow> nat \<Rightarrow> string \<Rightarrow> nat list \<Rightarrow> dedup_state \<Rightarrow> error + dedup_state" where
  "clean_cluster env n i name indices st =
     (let recapped_name = capwords env (py_strip strip_char name);
          (unique_name, n_attempts, requests') =
             remedy_loop env (unique_names st) recapped_name 0 (requests st)
      in
      if n < length (layer_clusters st) \<and> (\<forall>d\<in>set indices. d < length (layer_clusters st ! n))
      then Inr \<lparr>unique_names = insert unique_name (unique_names st),
                requests = requests',
                layer_clusters = (layer_clusters st)
                  [n := fold (\<lambda>d row. row[d := unique_name]) indices (layer_clusters st ! n)],
                committed = committed st @ [(n, i, unique_name, n_attempts)]\<rparr>
      else Inl IndexError)"

text \<open>\<^verbatim>\<open>for i, (name, indices) in enumerate(zip(names, pointsets))\<close>\<close>

fun clean_layer :: "naming_env \<Rightarrow> nat \<Rightarrow> nat \<Rightarrow> (string \<times> nat list) list \<Rightarrow> dedup_state \<Rightarrow> error + dedup_state" where
  "clean_layer env n i [] st = Inr st"
| "clean_layer env n i ((name, indices) # rest) st =
     (case clean_cluster env n i name indices st of
        Inl e \<Rightarrow> Inl e
      | Inr st' \<Rightarrow> clean_layer env n (Suc i) rest st')"

text \<open>
  \<^verbatim>\<open>for n in range(len(self.topic_name_layers_) - 1, -1, -1)\<close>, over the layer numbers
  still to do. \<^verbatim>\<open>pointset_layers[n]\<close> raises \<^verbatim>\<open>IndexError\<close> when there is no such layer.
\<close>

fun clean_layers :: "naming_env \<Rightarrow> string list list \<Rightarrow> nat list list list \<Rightarrow> nat list \<Rightarrow> dedup_state \<Rightarrow> error + dedup_state" where
  "clean_layers env topic_name_layers cluster_pointsets [] st = Inr st"
| "clean_layers env topic_name_layers cluster_pointsets (n # ns) st =
     (if n < length cluster_pointsets then
        (case clean_layer env n 0 (zip (topic_name_layers ! n) (cluster_pointsets ! n)) st of
           Inl e \<Rightarrow> Inl e
         | Inr st' \<Rightarrow> clean_layers env topic_name_layers cluster_pointsets ns st')
      else Inl IndexError)"

text \<open>
  \<open>n_documents\<close> is \<^verbatim>\<open>self.document_map.shape[0]\<close>; every document starts as
  \<^verbatim>\<open>"Unlabelled"\<close> in every layer and the set of used names starts empty.
\<close>

definition clean_topic_names :: "naming_env \<Rightarrow> nat \<Rightarrow> string list list \<Rightarrow> nat list list list \<Rightarrow> error + dedup_state" where
  "clean_topic_names env n_documents topic_name_layers cluster_pointsets =
     clean_layers env topic_name_layers cluster_pointsets (rev [0 ..< length topic_name_layers])
       \<lparr>unique_names = {}, requests = 0,
        layer_clusters = replicate (length topic_name_layers) (replicate n_documents ''Unlabelled''),
        committed = []\<rparr>"

text \<open>
  The invariant of the pass on its record of committed names: every entry used at most
  8 attempts and its name is in the set of used names, and an entry whose name repeats
  the name of an earlier entry used all 8 attempts.
\<close>

definition committed_ok :: "dedup_state \<Rightarrow> bool" where
  "committed_ok st \<longleftrightarrow>
     (\<forall>e\<in>set (committed st). snd (snd (snd e)) \<le> 8 \<and> fst (snd (snd e)) \<in> unique_names st)
     \<and> (\<forall>q < length (committed st). \<forall>p < q.
           fst (snd (snd (committed st ! p))) = fst (snd (snd (committed st ! q)))
             \<longrightarrow> snd (snd (snd (committed st ! q))) = 8)"

text \<open>The layer and cluster numbers of the entries of \<open>committed\<close>.\<close>

definition processed :: "(nat \<times> nat \<times> string \<times> nat) list \<Rightarrow> (nat \<times> nat) list" where
  "processed entries = map (\<lambda>e. (fst e, fst (snd e))) entries"

text \<open>
  An example model that answers every remedy request with the same name, and the state
  it leads to on one layer of two clusters both named \<open>Research\<close>.
\<close>

definition echo_env :: naming_env where
  "echo_env = \<lparr>complete = (\<lambda>k. ''Research''), capwords = (\<lambda>s. s)\<rparr>"

definition echo_state :: dedup_state where
  "echo_state =
     \<lparr>unique_names = {''Research''}, requests = 8,
      layer_clusters = [[''Research'', ''Research'', ''Research'']],
      committed = [(0, 0, ''Research'', 0), (0, 1, ''Research'', 8)]\<rparr>"

section \<open>Keyphrase collapsing: \<open>longest_keyphrases\<close>\<close>

text \<open>
  Python strings are modelled as \<open>string\<close>; the test \<^verbatim>\<open>a in b\<close> on two strings is
  the contiguous-substring test \<open>sublist a b\<close>.

  \<^verbatim>\<open>if f" {phrase}" in other or f"{phrase} " in other:\<close>
\<close>

definition extends_phrase :: "string \<Rightarrow> string \<Rightarrow> bool" where
  "extends_phrase phrase other \<longleftrightarrow>
     sublist (CHR '' '' # phrase) other \<or> sublist (phrase @ [CHR '' '']) other"

text \<open>
  The inner loop \<^verbatim>\<open>for other in candidate_keyphrases: if ...: phrase = other\<close>.
  The variable \<open>phrase\<close> is overwritten as the loop goes, so a later \<open>other\<close> is
  compared with the phrase chosen so far.
\<close>

definition absorb :: "string list \<Rightarrow> string \<Rightarrow> string" where
  "absorb candidate_keyphrases phrase =
     fold (\<lambda>other phrase. if extends_phrase phrase other then other else phrase)
       candidate_keyphrases phrase"

text \<open>
  The outer loop \<^verbatim>\<open>for i, phrase in enumerate(candidate_keyphrases)\<close>. The argument
  list is updated in place at index \<open>i\<close> (only when the phrase is appended to the
  result), so the state is the pair of the argument list and the result list.
\<close>

function keyphrase_loop :: "nat \<Rightarrow> string list \<Rightarrow> string list \<Rightarrow> string list \<times> string list" where
  "keyphrase_loop i candidate_keyphrases result =
     (if i < length candidate_keyphrases then
        (let phrase = absorb candidate_keyphrases (candidate_keyphrases ! i) in
         if phrase \<notin> set result
         then keyphrase_loop (Suc i) (candidate_keyphrases[i := phrase]) (result @ [phrase])
         else keyphrase_loop (Suc i) candidate_keyphrases result)
      else (candidate_keyphrases, result))"
  by pat_completeness auto
termination
  by (relation "measure (\<lambda>(i, cs, r). length cs - i)") auto

definition longest_keyphrases :: "string list \<Rightarrow> string list" where
  "longest_keyphrases candidate_keyphrases = snd (keyphrase_loop 0 candidate_keyphrases [])"

text \<open>
  The invariant of the outer loop: the result has no duplicates, its phrases are still in
  the argument list, and no phrase of the argument list extends one of them.
\<close>

definition kp_inv :: "string list \<Rightarrow> string list \<Rightarrow> bool" where
  "kp_inv cs r \<longleftrightarrow> set r \<subseteq> set cs \<and> distinct r
     \<and> (\<forall>p\<in>set r. \<forall>w\<in>set cs. \<not> extends_phrase p w)"

section \<open>Properties of \<open>longest_keyphrases\<close>\<close>

declare keyphrase_loop.simps [simp del]

lemma extends_phrase_longer: "extends_phrase p q \<Longrightarrow> length p < length q"
  unfolding extends_phrase_def by (auto dest: sublist_length_le)

lemma extends_phrase_irrefl: "\<not> extends_phrase p p"
  using extends_phrase_longer by blast

lemma extends_phrase_sublist: "extends_phrase p q \<Longrightarrow> sublist p q"
  unfolding extends_phrase_def
  by (metis sublist_order.order.trans sublist_Cons_right sublist_order.order.refl
      prefix_imp_sublist prefixI)

lemma extends_phrase_trans:
  assumes "extends_phrase p q" and "extends_phrase q r"
  shows "extends_phrase p r"
proof -
  have "sublist q r" using assms(2) by (rule extends_phrase_sublist)
  then show ?thesis
    using assms(1) unfolding extends_phrase_def
    by (meson sublist_order.order.trans)
qed

lemma absorb_fold_inv:
  assumes "\<forall>w\<in>set seen. \<not> extends_phrase q w"
  shows "(let f = fold (\<lambda>other phrase. if extends_phrase phrase other then other else phrase) xs q
         in (f = q \<or> extends_phrase q f) \<and> f \<in> insert q (set xs)
            \<and> (\<forall>w\<in>set seen \<union> set xs. \<not> extends_phrase f w))"
  using assms
proof (induction xs arbitrary: q "seen")
  case Nil
  then show ?case by simp
next
  case (Cons x xs)
  show ?case
  proof (cases "extends_phrase q x")
    case True
    have "\<forall>w\<in>set (seen @ [x]). \<not> extends_phrase x w"
      using Cons.prems True extends_phrase_trans extends_phrase_irrefl by auto
    from Cons.IH [OF this] True show ?thesis
      by (auto simp: Let_def dest: extends_phrase_trans)
  next
    case False
    have "\<forall>w\<in>set (seen @ [x]). \<not> extends_phrase q w"
      using Cons.prems False by auto
    from Cons.IH [OF this] False show ?thesis
      by (auto simp: Let_def)
  qed
qed

lemma absorb_props:
  "(absorb cs p = p \<or> extends_phrase p (absorb cs p))"
  "absorb cs p \<in> insert p (set cs)"
  "w \<in> set cs \<Longrightarrow> \<not> extends_phrase (absorb cs p) w"
  using absorb_fold_inv [of "[]" p cs] by (auto simp: absorb_def Let_def)

lemma absorb_maximal:
  "\<forall>w\<in>set cs. \<not> extends_phrase p w \<Longrightarrow> absorb cs p = p"
  unfolding absorb_def by (induction cs) auto

lemma keyphrase_loop_inv:
  "kp_inv cs r \<Longrightarrow> kp_inv (fst (keyphrase_loop i cs r)) (snd (keyphrase_loop i cs r))"
proof (induction i cs r rule: keyphrase_loop.induct)
  case (1 i cs r)
  show ?case
  proof (cases "i < length cs")
    case False
    then show ?thesis using "1.prems" by (subst (1 2) keyphrase_loop.simps) simp
  next
    case True
    define f where "f = absorb cs (cs ! i)"
    have fin: "f \<in> set cs"
      using absorb_props(2) [of cs "cs ! i"] True by (auto simp: f_def)
    have fmax: "\<forall>w\<in>set cs. \<not> extends_phrase f w"
      using absorb_props(3) by (auto simp: f_def)
    show ?thesis
    proof (cases "f \<in> set r")
      case True
      with "1.IH"(2) [OF \<open>i < length cs\<close> f_def [symmetric, THEN sym]] "1.prems" \<open>i < length cs\<close>
      show ?thesis by (subst (1 2) keyphrase_loop.simps) (simp add: f_def Let_def)
    next
      case False
      have sub: "set (cs[i := f]) \<subseteq> set cs"
        using fin by (meson set_update_subset_insert subset_trans insert_subset subset_refl)
      have keep: "p \<in> set (cs[i := f])" if "p \<in> set r" for p
      proof -
        from that "1.prems" have pin: "p \<in> set cs" and pmax: "\<forall>w\<in>set cs. \<not> extends_phrase p w"
          by (auto simp: kp_inv_def)
        from pin obtain j where j: "j < length cs" "cs ! j = p"
          by (auto simp: in_set_conv_nth)
        show ?thesis
        proof (cases "j = i")
          case True
          have "f = p \<or> extends_phrase p f"
            using absorb_props(1) [of cs "cs ! i"] j True by (auto simp: f_def)
          with pmax fin False that show ?thesis by auto
        next
          case False
          then have "cs[i := f] ! j = p" using j by simp
          then show ?thesis using j by (metis length_list_update nth_mem)
        qed
      qed
      have "kp_inv (cs[i := f]) (r @ [f])"
        unfolding kp_inv_def
        using "1.prems" False sub keep fmax
        by (auto simp: kp_inv_def set_update_memI \<open>i < length cs\<close>)
      from "1.IH"(1) [OF \<open>i < length cs\<close> f_def [symmetric, THEN sym] False this] False \<open>i < length cs\<close>
      show ?thesis by (subst (1 2) keyphrase_loop.simps) (simp add: f_def Let_def)
    qed
  qed
qed

lemma longest_keyphrases_antichain:
  "distinct (longest_keyphrases cs)"
  "p \<in> set (longest_keyphrases cs) \<Longrightarrow> q \<in> set (longest_keyphrases cs) \<Longrightarrow> \<not> extends_phrase p q"
  using keyphrase_loop_inv [of cs "[]" 0]
  by (auto simp: kp_inv_def longest_keyphrases_def)

lemma keyphrase_loop_fixed:
  assumes "distinct r" and "\<forall>p\<in>set r. \<forall>q\<in>set r. \<not> extends_phrase p q" and "i \<le> length r"
  shows "keyphrase_loop i r (take i r) = (r, r)"
  using assms(3)
proof (induction "length r - i" arbitrary: i)
  case 0
  then show ?case by (subst keyphrase_loop.simps) simp
next
  case (Suc n)
  then have i: "i < length r" by simp
  have a: "absorb r (r ! i) = r ! i"
    using assms(2) i by (intro absorb_maximal) auto
  have b: "r ! i \<notin> set (take i r)"
    using assms(1) i by (auto simp: in_set_conv_nth distinct_conv_nth)
  have "keyphrase_loop i r (take i r) = keyphrase_loop (Suc i) r (take (Suc i) r)"
    using i a b by (subst keyphrase_loop.simps) (simp add: take_Suc_conv_app_nth)
  also have "\<dots> = (r, r)" using Suc i by (intro Suc.hyps(1)) auto
  finally show ?case .
qed

text \<open>
  Claim C8. \<open>longest_keyphrases\<close> is idempotent: applied to its own output it returns
  that output, the same phrases in the same order. (Every phrase of an output is one that
  no other phrase of the output extends, and the output has no duplicates, so a second
  pass replaces nothing and drops nothing.)
\<close>

theorem longest_keyphrases_idempotent:
  "longest_keyphrases (longest_keyphrases candidate_keyphrases) = longest_keyphrases candidate_keyphrases"
  using keyphrase_loop_fixed [of "longest_keyphrases candidate_keyphrases" 0]
    longest_keyphrases_antichain [where cs = candidate_keyphrases]
  by (auto simp: longest_keyphrases_def)

section \<open>Properties of \<open>diversify\<close>\<close>

lemma diversify_loop_props:
  assumes "sorted_wrt (<) (retained @ todo)" and "retained \<noteq> []"
  shows "sorted_wrt (<) (diversify_loop metric q cands alpha mc todo retained)
     \<and> prefix retained (diversify_loop metric q cands alpha mc todo retained)
     \<and> set (diversify_loop metric q cands alpha mc todo retained) \<subseteq> set retained \<union> set todo
     \<and> (int (length retained) < mc \<longrightarrow> int (length (diversify_loop metric q cands alpha mc todo retained)) \<le> mc)"
  using assms
proof (induction todo arbitrary: retained)
  case Nil
  then show ?case by simp
next
  case (Cons i rest)
  have a: "sorted_wrt (<) (retained @ rest)"
    using Cons.prems(1) by (auto simp: sorted_wrt_append)
  have b: "sorted_wrt (<) ((retained @ [i]) @ rest)"
    using Cons.prems(1) by simp
  have c: "sorted_wrt (<) (retained @ [i])"
    using Cons.prems(1) by (auto simp: sorted_wrt_append)
  show ?case
    using Cons.IH [OF a Cons.prems(2)] Cons.IH [OF b] Cons.prems(2) c
    by (auto simp: Let_def dest: append_prefixD)
qed

text \<open>
  Claim C2, as amended. For every distance function, query, non-empty candidate list,
  \<open>alpha\<close> and cap, \<open>diversify\<close> returns a strictly increasing list of candidate
  indices whose first element is 0; when the cap is at least 2 the list is no longer
  than the cap. (The cap is tested only after an append, so index 0 is always kept
  and caps below 2 are not enforced.)
\<close>

theorem diversify_contract:
  assumes "cands \<noteq> []"
  shows "\<exists>r. diversify metric q cands alpha mc = Inr r
     \<and> sorted_wrt (<) r \<and> r \<noteq> [] \<and> hd r = 0 \<and> set r \<subseteq> {..< length cands}
     \<and> (2 \<le> mc \<longrightarrow> int (length r) \<le> mc)"
proof -
  have s: "sorted_wrt (<) ([0] @ [1 ..< length cands])"
    by (auto simp: sorted_wrt_append)
  from diversify_loop_props [OF s, of metric q cands alpha mc] assms
  show ?thesis
    by (auto simp: diversify_def prefix_def)
qed

theorem diversify_contract_witness:
  "[[1, 0], [- 1, 0 :: real]] \<noteq> [] \<and> (2 :: int) \<le> 2
   \<and> (\<exists>r. diversify cosine_distance [1, 0] [[1, 0], [- 1, 0]] 1 2 = Inr r
        \<and> sorted_wrt (<) r \<and> r \<noteq> [] \<and> hd r = 0
        \<and> set r \<subseteq> {..< length [[1, 0], [- 1, 0 :: real]]} \<and> int (length r) \<le> 2)"
  using diversify_contract [of "[[1, 0], [- 1, 0]]" cosine_distance "[1, 0]" 1 2]
  by simp

text \<open>
  Claim C2 as stated fails for caps below 2: with cap 0 the one candidate is returned
  (length 1), and with cap 1 two opposite candidates are both returned (length 2).
\<close>

theorem diversify_cap_counterexample:
  "diversify cosine_distance [1, 0] [[1, 0]] 1 0 = Inr [0]
   \<and> \<not> int (length [0 :: nat]) \<le> 0
   \<and> diversify cosine_distance [1, 0] [[1, 0], [- 1, 0]] 1 1 = Inr [0, 1]
   \<and> \<not> int (length [0, 1 :: nat]) \<le> 1"
  by (simp add: diversify_def rejected_def cosine_distance_def normalize_row_def dot_def)

subsection \<open>The scenario of three candidates\<close>

lemma sqrt_near_one: "99 / 100 < sqrt (4901 / 5000)"
  by (rule real_less_rsqrt) (simp add: power2_eq_square)

lemma normalize_unit: "normalize_row [1, 0] = [1, 0]" by (simp add: normalize_row_def dot_def)
lemma normalize_opposite: "normalize_row [-1, 0] = [-1, 0]" by (simp add: normalize_row_def dot_def)

lemma normalize_near: "\<exists>a b. 0 < a \<and> a < 1 \<and> normalize_row [99 / 100, 1 / 100] = [a, b]"
proof -
  define s :: real where "s = sqrt (4901 / 5000)"
  have s: "99 / 100 < s" unfolding s_def by (rule sqrt_near_one)
  then have pos: "0 < s" by simp
  have d: "dot [99 / 100, 1 / 100] [99 / 100, 1 / 100] = 4901 / 5000"
    by (simp add: dot_def)
  have "normalize_row [99 / 100, 1 / 100] = [99 / 100 / s, 1 / 100 / s]"
    using pos unfolding normalize_row_def d s_def [symmetric] by (simp add: Let_def)
  moreover have "0 < 99 / 100 / s" using pos by simp
  moreover have "99 / 100 / s < 1" using s pos by (simp add: divide_less_eq)
  ultimately show ?thesis by blast
qed

lemma scenario_value:
  "diversify cosine_distance [1, 0] [[1, 0], [99 / 100, 1 / 100], [- 1, 0]] 1 16 = Inr [0, 1]
   \<and> \<not> rejected cosine_distance [1, 0] [[1, 0], [99 / 100, 1 / 100], [- 1, 0]] 1 1 [0]
   \<and> rejected cosine_distance [1, 0] [[1, 0], [99 / 100, 1 / 100], [- 1, 0]] 1 2 [0, 1]"
proof -
  from normalize_near obtain a b where a: "0 < a" "a < 1"
    and n: "normalize_row [99 / 100, 1 / 100] = [a, b]" by blast
  have 1: "cosine_distance [1, 0] [99 / 100, 1 / 100] = 1 - a"
    using a by (simp add: cosine_distance_def normalize_unit n dot_def)
  have 2: "cosine_distance [99 / 100, 1 / 100] [1, 0] = 1 - a"
    using a by (simp add: cosine_distance_def normalize_unit n dot_def)
  have 3: "cosine_distance [1, 0] [- 1, 0] = 2"
    by (simp add: cosine_distance_def normalize_unit normalize_opposite dot_def)
  have 4: "cosine_distance [- 1, 0] [1, 0] = 2"
    by (simp add: cosine_distance_def normalize_unit normalize_opposite dot_def)
  have 5: "cosine_distance [- 1, 0] [99 / 100, 1 / 100] = 1 + a"
    using a by (simp add: cosine_distance_def normalize_opposite n dot_def)
  show ?thesis
    using a by (simp add: diversify_def rejected_def upt_conv_Cons 1 2 3 4 5)
qed

text \<open>
  Claim C6, as amended. On query \<open>[1, 0]\<close>, candidates \<open>[1, 0]\<close>, \<open>[0.99, 0.01]\<close>,
  \<open>[-1, 0]\<close>, \<open>alpha = 1\<close> and the default cap 16, \<open>diversify\<close> returns \<open>[0, 1]\<close>: index 1
  is kept, because its distance to the kept candidate 0 equals its distance to the query
  and the test is strict; index 2 is rejected, because the kept candidate 1 is closer to
  it than the query is.
\<close>

theorem diversify_scenario:
  "diversify cosine_distance [1, 0] [[1, 0], [99 / 100, 1 / 100], [- 1, 0]] 1 16 = Inr [0, 1]
   \<and> \<not> rejected cosine_distance [1, 0] [[1, 0], [99 / 100, 1 / 100], [- 1, 0]] 1 1 [0]
   \<and> rejected cosine_distance [1, 0] [[1, 0], [99 / 100, 1 / 100], [- 1, 0]] 1 2 [0, 1]"
  by (rule scenario_value)

text \<open>Claim C6 as stated: the result is not \<open>[0, 2]\<close>.\<close>

theorem diversify_scenario_counterexample:
  "diversify cosine_distance [1, 0] [[1, 0], [99 / 100, 1 / 100], [- 1, 0]] 1 16 \<noteq> Inr [0, 2]"
  using scenario_value by simp

section \<open>Properties of \<open>layer_from_clustering\<close>\<close>

lemma accumulate_point_error:
  "accumulate_point pv pl labels strengths base thr i acc = Inl e \<Longrightarrow> e = IndexError"
  by (auto simp: accumulate_point_def Let_def split: if_splits)

lemma accumulate_point_weights_length:
  "accumulate_point pv pl labels strengths base thr i acc = Inr acc'
     \<Longrightarrow> length (total_weights acc') = length (total_weights acc)"
  by (auto simp: accumulate_point_def Let_def split: if_splits)

lemma accumulate_point_overflow:
  "0 \<le> labels ! i \<Longrightarrow> length (total_weights acc) \<le> nat (labels ! i)
     \<Longrightarrow> accumulate_point pv pl labels strengths base thr i acc = Inl IndexError"
  by (simp add: accumulate_point_def Let_def)

lemma accumulate_points_overflow:
  assumes "i \<in> set todo" and "0 \<le> labels ! i"
    and "length (total_weights acc) \<le> nat (labels ! i)"
  shows "accumulate_points pv pl labels strengths base thr todo acc = Inl IndexError"
  using assms
proof (induction todo arbitrary: acc)
  case Nil
  then show ?case by simp
next
  case (Cons x rest)
  show ?case
  proof (cases "accumulate_point pv pl labels strengths base thr x acc")
    case (Inl e)
    then show ?thesis using accumulate_point_error [OF Inl] by simp
  next
    case (Inr acc')
    have "x \<noteq> i"
      using Inr accumulate_point_overflow [OF Cons.prems(2,3), of pv pl strengths base thr] by auto
    then have "i \<in> set rest" using Cons.prems(1) by simp
    moreover have "length (total_weights acc') \<le> nat (labels ! i)"
      using accumulate_point_weights_length [OF Inr] Cons.prems(3) by simp
    ultimately show ?thesis
      using Cons.IH [of acc'] Cons.prems(2) Inr by simp
  qed
qed

subsection \<open>The aggregation on label vectors within range\<close>

lemma members_finite [simp]: "finite (members labels m c)"
  by (simp add: members_def)

lemma members_Suc:
  "members labels (Suc m) c
     = (if labels ! m = int c then insert m (members labels m c) else members labels m c)"
  by (auto simp: members_def less_Suc_eq)

lemma members_fresh [simp]: "m \<notin> members labels m c"
  by (simp add: members_def)

lemma weighted_row_insert:
  assumes "finite M" and "m \<notin> M" and "length (rows ! m) = row_width rows"
  shows "row_add (weighted_row strengths rows M) (row_scale (strengths ! m) (rows ! m))
       = weighted_row strengths rows (insert m M)"
  using assms
  by (intro nth_equalityI) (simp_all add: row_add_def row_scale_def weighted_row_def)



lemma accumulate_point_succeeds:
  assumes "labels ! m < int (length (total_weights acc))"
    and "length (average_vectors acc) = length (total_weights acc)"
    and "length (average_locations acc) = length (total_weights acc)"
    and "length (pointsets acc) = length (total_weights acc)"
    and "length (metaclusters acc) = length (total_weights acc)"
    and "m < length strengths" and "m < length pv" and "m < length pl" and "m < length base"
  shows "\<exists>acc'. accumulate_point pv pl labels strengths base thr m acc = Inr acc'"
proof -
  have "0 \<le> labels ! m \<Longrightarrow> nat (labels ! m) < length (total_weights acc)"
    using assms(1) by linarith
  with assms(2-) show ?thesis
    by (simp add: accumulate_point_def Let_def)
qed

lemma accumulate_point_lengths:
  assumes "accumulate_point pv pl labels strengths base thr m acc = Inr acc'"
  shows "length (average_vectors acc') = length (average_vectors acc)"
    and "length (average_locations acc') = length (average_locations acc)"
    and "length (pointsets acc') = length (pointsets acc)"
    and "length (metaclusters acc') = length (metaclusters acc)"
  using assms by (auto simp: accumulate_point_def Let_def split: if_splits)

lemma accumulate_point_total_weights:
  assumes "accumulate_point pv pl labels strengths base thr m acc = Inr acc'"
  shows "total_weights acc' =
     (if labels ! m \<ge> 0
      then (total_weights acc)[nat (labels ! m) := total_weights acc ! nat (labels ! m) + strengths ! m]
      else total_weights acc)"
  using assms by (auto simp: accumulate_point_def Let_def split: if_splits)

lemma accumulate_point_average_vectors:
  assumes "accumulate_point pv pl labels strengths base thr m acc = Inr acc'"
  shows "average_vectors acc' =
     (if labels ! m \<ge> 0
      then (average_vectors acc)[nat (labels ! m) :=
             row_add (average_vectors acc ! nat (labels ! m)) (row_scale (strengths ! m) (pv ! m))]
      else average_vectors acc)"
  using assms by (auto simp: accumulate_point_def Let_def split: if_splits)

lemma accumulate_point_average_locations:
  assumes "accumulate_point pv pl labels strengths base thr m acc = Inr acc'"
  shows "average_locations acc' =
     (if labels ! m \<ge> 0
      then (average_locations acc)[nat (labels ! m) :=
             row_add (average_locations acc ! nat (labels ! m)) (row_scale (strengths ! m) (pl ! m))]
      else average_locations acc)"
  using assms by (auto simp: accumulate_point_def Let_def split: if_splits)

lemma accumulate_point_pointsets:
  assumes "accumulate_point pv pl labels strengths base thr m acc = Inr acc'"
  shows "pointsets acc' =
     (if labels ! m \<ge> 0 \<and> strengths ! m > thr
      then (pointsets acc)[nat (labels ! m) := insert m (pointsets acc ! nat (labels ! m))]
      else pointsets acc)"
  using assms by (auto simp: accumulate_point_def Let_def split: if_splits)

lemma accumulate_point_metaclusters:
  assumes "accumulate_point pv pl labels strengths base thr m acc = Inr acc'"
  shows "metaclusters acc' =
     (if labels ! m \<ge> 0 \<and> strengths ! m > thr \<and> base ! m \<noteq> - 1
      then (metaclusters acc)[nat (labels ! m) := insert (base ! m) (metaclusters acc ! nat (labels ! m))]
      else metaclusters acc)"
  using assms by (auto simp: accumulate_point_def Let_def split: if_splits)


lemma accumulate_point_sums:
  assumes step: "accumulate_point pv pl labels strengths base thr m acc = Inr acc'"
    and inv: "aggregated_sums pv pl labels strengths n m acc"
    and lab: "labels ! m < int n"
    and wid: "length (pv ! m) = row_width pv" "length (pl ! m) = row_width pl"
  shows "aggregated_sums pv pl labels strengths n (Suc m) acc'"
proof (cases "labels ! m < 0")
  case True
  then have "members labels (Suc m) c = members labels m c" for c
    by (simp add: members_Suc)
  with inv True show ?thesis
    by (simp add: aggregated_sums_def accumulate_point_total_weights [OF step]
        accumulate_point_average_vectors [OF step] accumulate_point_average_locations [OF step])
next
  case False
  define c0 where "c0 = nat (labels ! m)"
  have c0: "c0 < n" "labels ! m = int c0" using False lab by (auto simp: c0_def)
  have other: "members labels (Suc m) c = members labels m c" if "c \<noteq> c0" for c
    using that c0(2) by (simp add: members_Suc)
  have this_one: "members labels (Suc m) c0 = insert m (members labels m c0)"
    using c0(2) by (simp add: members_Suc)
  have lens: "length (average_vectors acc) = n" "length (average_locations acc) = n"
    "length (total_weights acc) = n"
    using inv by (auto simp: aggregated_sums_def)
  have old: "average_vectors acc ! c = weighted_row strengths pv (members labels m c)"
    "average_locations acc ! c = weighted_row strengths pl (members labels m c)"
    "total_weights acc ! c = (\<Sum>i\<in>members labels m c. strengths ! i)"
    if "c < n" for c
    using inv that by (auto simp: aggregated_sums_def)
  have tw: "total_weights acc' = (total_weights acc)[c0 := total_weights acc ! c0 + strengths ! m]"
    using accumulate_point_total_weights [OF step] False by (simp add: c0_def)
  have av: "average_vectors acc' = (average_vectors acc)
      [c0 := row_add (average_vectors acc ! c0) (row_scale (strengths ! m) (pv ! m))]"
    using accumulate_point_average_vectors [OF step] False by (simp add: c0_def)
  have al: "average_locations acc' = (average_locations acc)
      [c0 := row_add (average_locations acc ! c0) (row_scale (strengths ! m) (pl ! m))]"
    using accumulate_point_average_locations [OF step] False by (simp add: c0_def)
  have v: "row_add (average_vectors acc ! c0) (row_scale (strengths ! m) (pv ! m))
             = weighted_row strengths pv (members labels (Suc m) c0)"
    unfolding old(1) [OF c0(1)] this_one by (rule weighted_row_insert) (simp_all add: wid)
  have l: "row_add (average_locations acc ! c0) (row_scale (strengths ! m) (pl ! m))
             = weighted_row strengths pl (members labels (Suc m) c0)"
    unfolding old(2) [OF c0(1)] this_one by (rule weighted_row_insert) (simp_all add: wid)
  have w: "total_weights acc ! c0 + strengths ! m = (\<Sum>i\<in>members labels (Suc m) c0. strengths ! i)"
    unfolding old(3) [OF c0(1)] this_one by simp
  show ?thesis
    unfolding aggregated_sums_def tw av al v l w
  proof (intro conjI allI impI)
    fix c assume c: "c < n"
    show "(average_vectors acc)[c0 := weighted_row strengths pv (members labels (Suc m) c0)] ! c
        = weighted_row strengths pv (members labels (Suc m) c)"
      using c lens old(1) other by (cases "c = c0") simp_all
    show "(average_locations acc)[c0 := weighted_row strengths pl (members labels (Suc m) c0)] ! c
        = weighted_row strengths pl (members labels (Suc m) c)"
      using c lens old(2) other by (cases "c = c0") simp_all
    show "(total_weights acc)[c0 := \<Sum>i\<in>members labels (Suc m) c0. strengths ! i] ! c
        = (\<Sum>i\<in>members labels (Suc m) c. strengths ! i)"
      using c lens old(3) other by (cases "c = c0") simp_all
  qed (simp_all add: lens)
qed

lemma accumulate_point_sets:
  assumes step: "accumulate_point pv pl labels strengths base thr m acc = Inr acc'"
    and inv: "aggregated_sets labels strengths base thr n m acc"
    and lab: "labels ! m < int n"
  shows "aggregated_sets labels strengths base thr n (Suc m) acc'"
proof (cases "labels ! m < 0")
  case True
  then have "members labels (Suc m) c = members labels m c" for c
    by (simp add: members_Suc)
  with inv True show ?thesis
    by (simp add: aggregated_sets_def accumulate_point_pointsets [OF step]
        accumulate_point_metaclusters [OF step])
next
  case False
  define c0 where "c0 = nat (labels ! m)"
  have c0: "c0 < n" "labels ! m = int c0" using False lab by (auto simp: c0_def)
  have other: "members labels (Suc m) c = members labels m c" if "c \<noteq> c0" for c
    using that c0(2) by (simp add: members_Suc)
  have this_one: "members labels (Suc m) c0 = insert m (members labels m c0)"
    using c0(2) by (simp add: members_Suc)
  have lens: "length (pointsets acc) = n" "length (metaclusters acc) = n"
    using inv by (auto simp: aggregated_sets_def)
  have old: "pointsets acc ! c = {i \<in> members labels m c. strengths ! i > thr}"
    "metaclusters acc ! c
       = (\<lambda>i. base ! i) ` {i \<in> members labels m c. strengths ! i > thr \<and> base ! i \<noteq> - 1}"
    if "c < n" for c
    using inv that by (auto simp: aggregated_sets_def)
  have ps: "pointsets acc' = (pointsets acc)
      [c0 := (if strengths ! m > thr then insert m (pointsets acc ! c0) else pointsets acc ! c0)]"
    using accumulate_point_pointsets [OF step] False by (simp add: c0_def)
  have ms: "metaclusters acc' = (metaclusters acc)
      [c0 := (if strengths ! m > thr \<and> base ! m \<noteq> - 1
              then insert (base ! m) (metaclusters acc ! c0) else metaclusters acc ! c0)]"
    using accumulate_point_metaclusters [OF step] False by (simp add: c0_def)
  have p: "(if strengths ! m > thr then insert m (pointsets acc ! c0) else pointsets acc ! c0)
             = {i \<in> members labels (Suc m) c0. strengths ! i > thr}"
    unfolding old(1) [OF c0(1)] this_one by auto
  have mc: "(if strengths ! m > thr \<and> base ! m \<noteq> - 1
             then insert (base ! m) (metaclusters acc ! c0) else metaclusters acc ! c0)
             = (\<lambda>i. base ! i) ` {i \<in> members labels (Suc m) c0. strengths ! i > thr \<and> base ! i \<noteq> - 1}"
    unfolding old(2) [OF c0(1)] this_one by auto
  show ?thesis
    unfolding aggregated_sets_def ps ms p mc
  proof (intro conjI allI impI)
    fix c assume c: "c < n"
    show "(pointsets acc)[c0 := {i \<in> members labels (Suc m) c0. strengths ! i > thr}] ! c
        = {i \<in> members labels (Suc m) c. strengths ! i > thr}"
      using c lens old(1) other by (cases "c = c0") simp_all
    show "(metaclusters acc)[c0 := (\<lambda>i. base ! i) `
            {i \<in> members labels (Suc m) c0. strengths ! i > thr \<and> base ! i \<noteq> - 1}] ! c
        = (\<lambda>i. base ! i) ` {i \<in> members labels (Suc m) c. strengths ! i > thr \<and> base ! i \<noteq> - 1}"
      using c lens old(2) other by (cases "c = c0") simp_all
  qed (simp_all add: lens)
qed


lemma accumulate_points_aggregated:
  assumes len: "length strengths = length labels" "length pv = length labels"
      "length pl = length labels" "length base = length labels"
    and lab: "\<forall>l\<in>set labels. l < int n"
    and wid: "\<forall>v\<in>set pv. length v = row_width pv" "\<forall>v\<in>set pl. length v = row_width pl"
    and b: "b \<le> length labels"
    and inv: "aggregated_sums pv pl labels strengths n a acc"
      "aggregated_sets labels strengths base thr n a acc"
    and ab: "a \<le> b"
  shows "\<exists>acc'. accumulate_points pv pl labels strengths base thr [a ..< b] acc = Inr acc'
           \<and> aggregated_sums pv pl labels strengths n b acc'
           \<and> aggregated_sets labels strengths base thr n b acc'"
  using inv ab
proof (induction "b - a" arbitrary: a acc)
  case 0
  then show ?case by simp
next
  case (Suc d)
  then have a: "a < b" "a < length labels" using b by auto
  have la: "labels ! a < int n" using lab a(2) by simp
  have "labels ! a < int (length (total_weights acc))"
    using la Suc.prems(1) by (simp add: aggregated_sums_def)
  then obtain acc1 where step: "accumulate_point pv pl labels strengths base thr a acc = Inr acc1"
    using accumulate_point_succeeds [of labels a acc strengths pv pl base thr] Suc.prems(1,2) a(2) len
    by (auto simp: aggregated_sums_def aggregated_sets_def)
  have w: "length (pv ! a) = row_width pv" "length (pl ! a) = row_width pl"
    using wid a(2) len by auto
  have 1: "aggregated_sums pv pl labels strengths n (Suc a) acc1"
    by (rule accumulate_point_sums [OF step Suc.prems(1) la w])
  have 2: "aggregated_sets labels strengths base thr n (Suc a) acc1"
    by (rule accumulate_point_sets [OF step Suc.prems(2) la])
  have "d = b - Suc a" "Suc a \<le> b" using Suc.hyps(2) a(1) by auto
  from Suc.hyps(1) [OF this(1) 1 2 this(2)] step a(1) show ?case
    by (simp add: upt_conv_Cons)
qed

lemma weighted_row_empty: "weighted_row strengths rows {} = replicate (row_width rows) 0"
  by (simp add: weighted_row_def map_replicate_const)

text \<open>
  When every label is below the number of distinct labels minus one (as when the labels
  are \<open>-1, 0, \<dots>, k - 1\<close> and some document is unassigned), the aggregation returns,
  for every cluster \<open>c\<close>: the strength-weighted sum of the rows of exactly the documents
  labelled \<open>c\<close>, divided by the sum of their strengths; the pointset of exactly the
  documents labelled \<open>c\<close> whose strength exceeds the threshold; and as metacluster set
  the finer labels other than -1 of the documents of the pointset.
\<close>

lemma aggregator_correct:
  assumes ne: "labels \<noteq> []"
    and len: "length strengths = length labels" "length pv = length labels"
      "length pl = length labels" "length base = length labels"
    and lab: "\<forall>l\<in>set labels. l < int (card (set labels)) - 1"
    and wid: "\<forall>v\<in>set pv. length v = row_width pv" "\<forall>v\<in>set pl. length v = row_width pl"
  shows "\<exists>l. layer_from_clustering pv pl labels strengths base thr = Inr l
     \<and> length (layer_vectors l) = card (set labels) - 1
     \<and> length (layer_locations l) = card (set labels) - 1
     \<and> length (layer_pointsets l) = card (set labels) - 1
     \<and> length (layer_metaclusters l) = card (set labels) - 1
     \<and> (\<forall>c < card (set labels) - 1.
          layer_vectors l ! c
            = divide_row (weighted_row strengths pv (members labels (length labels) c))
                (\<Sum>i\<in>members labels (length labels) c. strengths ! i)
          \<and> layer_locations l ! c
            = divide_row (weighted_row strengths pl (members labels (length labels) c))
                (\<Sum>i\<in>members labels (length labels) c. strengths ! i)
          \<and> layer_pointsets l ! c
            = {i. i < length labels \<and> labels ! i = int c \<and> strengths ! i > thr}
          \<and> layer_metaclusters l ! c
            = (\<lambda>i. base ! i) ` {i. i < length labels \<and> labels ! i = int c
                                   \<and> strengths ! i > thr \<and> base ! i \<noteq> - 1})"
proof -
  define n where "n = card (set labels) - 1"
  have pos: "0 < card (set labels)" using ne by (simp add: card_gt_0_iff)
  then have nn: "\<not> int (card (set labels)) - 1 < 0" "nat (int (card (set labels)) - 1) = n"
    by (auto simp: n_def)
  have lab': "\<forall>l\<in>set labels. l < int n" using lab pos by (auto simp: n_def)
  define acc0 where "acc0 =
     \<lparr>average_vectors = replicate n (replicate (row_width pv) 0),
      average_locations = replicate n (replicate (row_width pl) 0),
      total_weights = replicate n 0, pointsets = replicate n {},
      metaclusters = replicate n {}\<rparr>"
  have m0: "members labels 0 c = {}" for c by (simp add: members_def)
  have i1: "aggregated_sums pv pl labels strengths n 0 acc0"
    by (simp add: aggregated_sums_def acc0_def m0 weighted_row_empty)
  have i2: "aggregated_sets labels strengths base thr n 0 acc0"
    by (simp add: aggregated_sets_def acc0_def m0)
  from accumulate_points_aggregated [OF len lab' wid order_refl i1 i2]
  obtain acc where run: "accumulate_points pv pl labels strengths base thr [0 ..< length labels] acc0 = Inr acc"
    and s1: "aggregated_sums pv pl labels strengths n (length labels) acc"
    and s2: "aggregated_sets labels strengths base thr n (length labels) acc"
    by auto
  have res: "layer_from_clustering pv pl labels strengths base thr =
     Inr \<lparr>layer_vectors = map (\<lambda>(r, w). divide_row r w) (zip (average_vectors acc) (total_weights acc)),
          layer_locations = map (\<lambda>(r, w). divide_row r w) (zip (average_locations acc) (total_weights acc)),
          layer_pointsets = pointsets acc, layer_metaclusters = metaclusters acc\<rparr>"
    using run nn by (simp add: layer_from_clustering_def Let_def acc0_def)
  have mem: "{i \<in> members labels (length labels) c. P i}
      = {i. i < length labels \<and> labels ! i = int c \<and> P i}" for c P
    by (auto simp: members_def)
  show ?thesis
    unfolding res n_def [symmetric]
    using s1 s2 by (simp add: aggregated_sums_def aggregated_sets_def mem)
qed

subsection \<open>The aggregation when no document is unassigned\<close>

text \<open>
  Claim C10. The number of clusters is the number of distinct labels minus one. For every
  non-empty label vector in which no document is unassigned (every label is at least 0),
  the accumulator arrays are shorter than the highest label requires, and the aggregation
  ends in the guarded-index error, whatever the other arguments are.
\<close>

theorem unassigned_label_needed:
  assumes "cluster_label_vector \<noteq> []" and "\<forall>l\<in>set cluster_label_vector. 0 \<le> l"
  shows "layer_from_clustering point_vectors point_locations cluster_label_vector
           cluster_membership_vector base_clusters membership_strength_threshold = Inl IndexError"
proof -
  let ?S = "set cluster_label_vector"
  define m where "m = Max ?S"
  have fin: "finite ?S" and ne: "?S \<noteq> {}" using assms(1) by auto
  have m_in: "m \<in> ?S" unfolding m_def using fin ne by (rule Max_in)
  then have m0: "0 \<le> m" using assms(2) by blast
  have "?S \<subseteq> {0 .. m}" using assms(2) Max_ge [OF fin] by (auto simp: m_def)
  then have "card ?S \<le> card {0 .. m}" by (intro card_mono) auto
  then have c: "card ?S \<le> nat m + 1" using m0 by simp
  have pos: "0 < card ?S" using fin ne by (simp add: card_gt_0_iff)
  from m_in obtain i where i: "i < length cluster_label_vector" "cluster_label_vector ! i = m"
    by (auto simp: in_set_conv_nth)
  have n0: "\<not> int (card ?S) - 1 < 0" using pos by linarith
  have len: "nat (int (card ?S) - 1) \<le> nat (cluster_label_vector ! i)"
    using c pos i(2) by simp
  have "accumulate_points point_vectors point_locations cluster_label_vector
           cluster_membership_vector base_clusters membership_strength_threshold
           [0 ..< length cluster_label_vector]
           \<lparr>average_vectors = replicate (nat (int (card ?S) - 1)) (replicate (row_width point_vectors) 0),
            average_locations = replicate (nat (int (card ?S) - 1)) (replicate (row_width point_locations) 0),
            total_weights = replicate (nat (int (card ?S) - 1)) 0,
            pointsets = replicate (nat (int (card ?S) - 1)) {},
            metaclusters = replicate (nat (int (card ?S) - 1)) {}\<rparr> = Inl IndexError"
    by (rule accumulate_points_overflow [where i = i]) (use i m0 len in auto)
  then show ?thesis
    using n0 by (simp add: layer_from_clustering_def Let_def)
qed

theorem unassigned_label_needed_witness:
  "[0, 1, 1] \<noteq> ([] :: int list) \<and> list_all (\<lambda>l. 0 \<le> l) [0, 1, 1 :: int]
   \<and> layer_from_clustering [[1], [2], [3]] [[0], [0], [1]] [0, 1, 1] [1, 1, 1] [0, 1, 1] (2 / 10)
       = Inl IndexError"
  using unassigned_label_needed [of "[0, 1, 1]" "[[1], [2], [3]]" "[[0], [0], [1]]" "[1, 1, 1]" "[0, 1, 1]" "2 / 10"]
  by simp

text \<open>
  Claim C1, at an input where it fails: four documents with strength 1, two in cluster 0
  and two in cluster 1, none unassigned. The claim promises a centroid and a pointset for
  both clusters; the arrays have length \<open>len({0, 1}) - 1 = 1\<close> and the write for the
  third document, at index 1, is out of range.
\<close>

theorem aggregator_all_assigned:
  "layer_from_clustering [[1], [2], [3], [4]] [[0], [0], [1], [1]] [0, 0, 1, 1] [1, 1, 1, 1]
     [0, 0, 1, 1] (2 / 10) = Inl IndexError"
  by code_simp

section \<open>Properties of \<open>build_cluster_layers\<close>\<close>

declare build_loop.simps [simp del]

lemma build_loop_exit:
  "\<not> n \<ge> minc \<Longrightarrow> build_loop lib pv pl base minc thr q fuel clusters probs n base_layer ls = Some (Inr ls)"
  by (subst build_loop.simps) simp

lemma build_loop_no_fuel:
  "n \<ge> minc \<Longrightarrow> build_loop lib pv pl base minc thr q 0 clusters probs n base_layer ls = None"
  by (subst build_loop.simps) simp

lemma build_loop_step:
  assumes "build_loop lib pv pl base minc thr q (Suc fuel) clusters probs n base_layer ls = Some (Inr ls')"
    and "n \<ge> minc"
  obtains l0 x clusters' probs' where
    "layer_from_clustering pv pl clusters probs base thr = Inr l0"
    "quantile lib (map card (layer_pointsets (if \<not> base_layer then drop_passthrough l0 else l0))) q = Some x"
    "condense lib (py_int x) = (clusters', probs')"
    "build_loop lib pv pl base minc thr q fuel clusters' probs' (Max (set clusters') + 1) False
       (append_layer ls (if \<not> base_layer then drop_passthrough l0 else l0)) = Some (Inr ls')"
  using assms
  by (subst (asm) build_loop.simps)
     (auto simp: Let_def split: sum.splits option.splits prod.splits if_splits)

lemma select_rows_filter: "select_rows (map P xs) xs = filter P xs"
  unfolding select_rows_def by (induction xs) auto

lemma drop_passthrough_metaclusters:
  "layer_metaclusters (drop_passthrough l) = filter (\<lambda>x. card x > 1) (layer_metaclusters l)"
  by (simp add: drop_passthrough_def Let_def select_rows_filter)

lemma meta_within_update:
  "meta_within B ms \<Longrightarrow> c < length ms \<Longrightarrow> x \<in> B \<Longrightarrow> meta_within B (ms[c := insert x (ms ! c)])"
  unfolding meta_within_def
  by (auto dest!: set_update_subset_insert [THEN subsetD])

lemma accumulate_point_meta:
  assumes "accumulate_point pv pl labels strengths base thr i acc = Inr acc'"
    and "meta_within (set base - {- 1}) (metaclusters acc)"
  shows "meta_within (set base - {- 1}) (metaclusters acc')"
  using assms
  by (auto simp: accumulate_point_def Let_def split: if_splits intro!: meta_within_update)

lemma accumulate_points_meta:
  assumes "accumulate_points pv pl labels strengths base thr todo acc = Inr acc'"
    and "meta_within (set base - {- 1}) (metaclusters acc)"
  shows "meta_within (set base - {- 1}) (metaclusters acc')"
  using assms
proof (induction todo arbitrary: acc)
  case Nil
  then show ?case by simp
next
  case (Cons i rest)
  then show ?case
    by (auto split: sum.splits dest: accumulate_point_meta)
qed

lemma layer_from_clustering_meta:
  assumes "layer_from_clustering pv pl labels strengths base thr = Inr l"
  shows "meta_within (set base - {- 1}) (layer_metaclusters l)"
proof -
  have "meta_within (set base - {- 1}) (replicate n {})" for n
    by (simp add: meta_within_def)
  with assms show ?thesis
    by (auto simp: layer_from_clustering_def Let_def split: if_splits sum.splits
        dest!: accumulate_points_meta)
qed

lemma build_loop_meta:
  assumes "build_loop lib pv pl base minc thr q fuel clusters probs n base_layer ls = Some (Inr ls')"
    and "\<forall>ms\<in>set (metacluster_layers ls). meta_within (set base - {- 1}) ms"
  shows "\<forall>ms\<in>set (metacluster_layers ls'). meta_within (set base - {- 1}) ms"
  using assms
proof (induction fuel arbitrary: clusters probs n base_layer ls)
  case 0
  then show ?case
    by (cases "n \<ge> minc") (simp_all add: build_loop_exit build_loop_no_fuel)
next
  case (Suc fuel)
  show ?case
  proof (cases "n \<ge> minc")
    case False
    with Suc.prems show ?thesis by (simp add: build_loop_exit)
  next
    case True
    from build_loop_step [OF Suc.prems(1) True] obtain l0 x clusters' probs' where
      l0: "layer_from_clustering pv pl clusters probs base thr = Inr l0" and
      rec0: "build_loop lib pv pl base minc thr q fuel clusters' probs' (Max (set clusters') + 1) False
         (append_layer ls (if \<not> base_layer then drop_passthrough l0 else l0)) = Some (Inr ls')"
      by blast
    define l where "l = (if \<not> base_layer then drop_passthrough l0 else l0)"
    have rec: "build_loop lib pv pl base minc thr q fuel clusters' probs' (Max (set clusters') + 1)
                 False (append_layer ls l) = Some (Inr ls')"
      using rec0 by (simp add: l_def)
    have "meta_within (set base - {- 1}) (layer_metaclusters l)"
      using layer_from_clustering_meta [OF l0]
      by (auto simp: l_def drop_passthrough_metaclusters meta_within_def)
    then have "\<forall>ms\<in>set (metacluster_layers (append_layer ls l)). meta_within (set base - {- 1}) ms"
      using Suc.prems(2) by (auto simp: append_layer_def)
    from Suc.IH [OF rec this] show ?thesis .
  qed
qed

lemma build_loop_merge:
  assumes "build_loop lib pv pl base minc thr q fuel clusters probs n base_layer ls = Some (Inr ls')"
    and "later_layers_merge base_layer (metacluster_layers ls)"
    and "\<not> base_layer \<longrightarrow> metacluster_layers ls \<noteq> []"
  shows "later_layers_merge False (metacluster_layers ls')"
  using assms
proof (induction fuel arbitrary: clusters probs n base_layer ls)
  case 0
  then show ?case
    by (cases "n \<ge> minc") (auto simp: build_loop_exit build_loop_no_fuel later_layers_merge_def)
next
  case (Suc fuel)
  show ?case
  proof (cases "n \<ge> minc")
    case False
    with Suc.prems show ?thesis by (auto simp: build_loop_exit later_layers_merge_def)
  next
    case True
    from build_loop_step [OF Suc.prems(1) True] obtain l0 x clusters' probs' where
      l0: "layer_from_clustering pv pl clusters probs base thr = Inr l0" and
      rec0: "build_loop lib pv pl base minc thr q fuel clusters' probs' (Max (set clusters') + 1) False
         (append_layer ls (if \<not> base_layer then drop_passthrough l0 else l0)) = Some (Inr ls')"
      by blast
    define l where "l = (if \<not> base_layer then drop_passthrough l0 else l0)"
    have rec: "build_loop lib pv pl base minc thr q fuel clusters' probs' (Max (set clusters') + 1)
                 False (append_layer ls l) = Some (Inr ls')"
      using rec0 by (simp add: l_def)
    have new: "\<not> base_layer \<Longrightarrow> \<forall>m\<in>set (layer_metaclusters l). 2 \<le> card m"
      by (auto simp: l_def drop_passthrough_metaclusters)
    have "later_layers_merge False (metacluster_layers (append_layer ls l))"
      unfolding later_layers_merge_def
    proof (intro conjI allI impI)
      fix k
      assume k: "0 < k \<and> k < length (metacluster_layers (append_layer ls l))"
      show "\<forall>m\<in>set (metacluster_layers (append_layer ls l) ! k). 2 \<le> card m"
      proof (cases "k < length (metacluster_layers ls)")
        case True
        then show ?thesis
          using Suc.prems(2) k by (auto simp: later_layers_merge_def append_layer_def nth_append)
      next
        case False
        with k have keq: "k = length (metacluster_layers ls)" by (simp add: append_layer_def)
        with k have "metacluster_layers ls \<noteq> []" by auto
        then have "\<not> base_layer" using Suc.prems(2) by (auto simp: later_layers_merge_def)
        from new [OF this] keq show ?thesis by (simp add: append_layer_def)
      qed
    qed simp
    moreover have "metacluster_layers (append_layer ls l) \<noteq> []" by (simp add: append_layer_def)
    ultimately show ?thesis using Suc.IH [OF rec] by simp
  qed
qed

lemma example_run:
  "build_cluster_layers example_library 10 example_points example_points 2 1 (2 / 10) (8 / 10)
     = Some (Inr example_layers)"
  by code_simp

lemma example_thresholds:
  "py_int (the (quantile example_library (map card [{0, 1}, {2}, {3, 4}, {5, 6 :: nat}]) (8 / 10))) = 2"
  "py_int (the (quantile example_library (map card [{0, 1, 2 :: nat}]) (8 / 10))) = 3"
  "py_int (the (quantile example_library (map card [{0, 1, 2, 7}, {3, 4, 5, 6 :: nat}]) (8 / 10))) = 4"
  by code_simp+

text \<open>
  Claim C3, as amended. For every run of \<open>build_cluster_layers\<close> that returns its
  layers, in every layer except the base layer (layer 0) every retained cluster's
  metacluster set has at least two elements. (Nothing is claimed about the number of
  clusters from one layer to the next: it follows the label vectors the clustering
  library returns, and the builder's loop test does not compare it with the previous
  layer's.)
\<close>

theorem coarse_layers_merge:
  assumes "build_cluster_layers lib fuel point_vectors point_locations min_clusters
             base_min_cluster_size membership_strength_threshold next_cluster_size_quantile = Some (Inr ls)"
    and "0 < k" and "k < length (metacluster_layers ls)"
    and "m \<in> set (metacluster_layers ls ! k)"
  shows "2 \<le> card m"
proof -
  obtain clusters probs where c: "condense lib base_min_cluster_size = (clusters, probs)"
    by (cases "condense lib base_min_cluster_size")
  have loop: "build_loop lib point_vectors point_locations clusters min_clusters
      membership_strength_threshold next_cluster_size_quantile fuel clusters probs
      (int (card (set (filter (\<lambda>l. l \<ge> 0) clusters)))) True
      \<lparr>vector_layers = [], location_layers = [], pointset_layers = [],
       metacluster_layers = []\<rparr> = Some (Inr ls)"
    using assms(1) by (simp add: build_cluster_layers_def c)
  have "later_layers_merge False (metacluster_layers ls)"
    using build_loop_merge [OF loop] by (simp add: later_layers_merge_def)
  with assms(2-4) show ?thesis by (auto simp: later_layers_merge_def)
qed


theorem coarse_layers_merge_witness:
  "build_cluster_layers example_library 10 example_points example_points 2 1 (2 / 10) (8 / 10)
     = Some (Inr example_layers)
   \<and> (0 :: nat) < 2 \<and> 2 < length (metacluster_layers example_layers)
   \<and> {2, 3} \<in> set (metacluster_layers example_layers ! 2) \<and> 2 \<le> card {2, 3 :: int}"
  using coarse_layers_merge [OF example_run, of 2 "{2, 3}"] example_run
  by (simp add: example_layers_def)

text \<open>
  Claim C3 as stated fails on the example run, which returns three layers of 4, 1 and 2
  clusters: layer 2 has more clusters than layer 1.
\<close>

theorem cluster_count_counterexample:
  "map_option (map_sum id cluster_counts)
     (build_cluster_layers example_library 10 example_points example_points 2 1 (2 / 10) (8 / 10))
     = Some (Inr [4, 1, 2])
   \<and> \<not> (2 :: nat) < 1"
  using example_run by (simp add: cluster_counts_def example_layers_def)

text \<open>
  Claim C4, as amended. For every layer produced by \<open>build_cluster_layers\<close>, every
  element of every metacluster set is a cluster label, other than the unassigned label
  -1, of the base layer's flat clustering (the condensation at \<open>base_min_cluster_size\<close>):
  the label vector passed to the aggregator as the finer-layer labels is always the base
  layer's, whatever the layer.
\<close>

theorem metaclusters_are_base_labels:
  assumes "build_cluster_layers lib fuel point_vectors point_locations min_clusters
             base_min_cluster_size membership_strength_threshold next_cluster_size_quantile = Some (Inr ls)"
    and "k < length (metacluster_layers ls)"
    and "m \<in> set (metacluster_layers ls ! k)"
    and "x \<in> m"
  shows "x \<in> set (fst (condense lib base_min_cluster_size)) \<and> x \<noteq> - 1"
proof -
  obtain clusters probs where c: "condense lib base_min_cluster_size = (clusters, probs)"
    by (cases "condense lib base_min_cluster_size")
  have loop: "build_loop lib point_vectors point_locations clusters min_clusters
      membership_strength_threshold next_cluster_size_quantile fuel clusters probs
      (int (card (set (filter (\<lambda>l. l \<ge> 0) clusters)))) True
      \<lparr>vector_layers = [], location_layers = [], pointset_layers = [],
       metacluster_layers = []\<rparr> = Some (Inr ls)"
    using assms(1) by (simp add: build_cluster_layers_def c)
  have "\<forall>ms\<in>set (metacluster_layers ls).
          meta_within (set (fst (condense lib base_min_cluster_size)) - {- 1}) ms"
    using build_loop_meta [OF loop] by (simp add: c)
  with assms(2-4) show ?thesis
    by (auto simp: meta_within_def dest!: nth_mem)
qed

theorem metaclusters_are_base_labels_witness:
  "build_cluster_layers example_library 10 example_points example_points 2 1 (2 / 10) (8 / 10)
     = Some (Inr example_layers)
   \<and> 2 < length (metacluster_layers example_layers)
   \<and> {2, 3} \<in> set (metacluster_layers example_layers ! 2) \<and> (3 :: int) \<in> {2, 3}
   \<and> 3 \<in> set (fst (condense example_library 1)) \<and> (3 :: int) \<noteq> - 1"
  using metaclusters_are_base_labels [OF example_run, of 2 "{2, 3}" 3] example_run
  by (simp add: example_layers_def example_library_def example_labels_def)

text \<open>
  Claim C4 as stated fails on the example run. The thresholds computed after layers 0, 1
  and 2 are 2, 3 and 4, so layer 1 comes from the condensation at 2 and layer 2 from the
  condensation at 3. Layer 2 has the metacluster set \<open>{2, 3}\<close>, and 3 is not a label of
  layer 1's flat clustering.
\<close>

theorem metacluster_counterexample:
  "map_option (map_sum id metacluster_layers)
     (build_cluster_layers example_library 10 example_points example_points 2 1 (2 / 10) (8 / 10))
     = Some (Inr [[{0}, {1}, {2}, {3}], [{0, 1}], [{0, 1}, {2, 3}]])
   \<and> py_int (the (quantile example_library (map card [{0, 1}, {2}, {3, 4}, {5, 6 :: nat}]) (8 / 10))) = 2
   \<and> py_int (the (quantile example_library (map card [{0, 1, 2 :: nat}]) (8 / 10))) = 3
   \<and> fst (condense example_library 2) = [0, 0, 0, 1, 1, 2, 2, - 1, - 1]
   \<and> 3 \<notin> set (fst (condense example_library 2))"
  using example_run example_thresholds(1,2)
  by (simp add: example_layers_def example_library_def example_labels_def)

section \<open>Properties of the neighbour table\<close>

lemma argsort_props:
  "distinct (argsort xs)" "set (argsort xs) = {..< length xs}" "length (argsort xs) = length xs"
  "sorted (map (\<lambda>i. xs ! i) (argsort xs))"
  by (auto simp: argsort_def)

lemma sorted_take_le_rest:
  assumes "sorted (map f ys)" and "distinct ys" and "k \<in> set (take n ys)"
    and "j \<in> set ys" and "j \<notin> set (take n ys)"
  shows "f k \<le> f j"
proof -
  have "j \<in> set (drop n ys)"
    using assms(4,5) by (metis Un_iff append_take_drop_id set_append)
  moreover have "sorted (map f (take n ys) @ map f (drop n ys))"
    using assms(1) by (metis append_take_drop_id map_append)
  ultimately show ?thesis
    using assms(3) by (auto simp: sorted_append)
qed

lemma cluster_neighbours_row:
  assumes "i < length rows"
  shows "cluster_neighbours rows ! i
       = take 16 (argsort (map (pairwise_cosine rows i) [0 ..< length rows]))"
  using assms by (simp add: cluster_neighbours_def)

lemma neighbours_props:
  assumes i: "i < length rows"
  defines "row \<equiv> cluster_neighbours rows ! i"
  shows "length row = min 16 (length rows)"
    and "distinct row"
    and "set row \<subseteq> {..< length rows}"
    and "sorted (map (pairwise_cosine rows i) row)"
    and "\<And>j k. j < length rows \<Longrightarrow> j \<notin> set row \<Longrightarrow> k \<in> set row
           \<Longrightarrow> pairwise_cosine rows i k \<le> pairwise_cosine rows i j"
    and "length rows \<le> 16 \<Longrightarrow> i \<in> set row"
proof -
  let ?d = "map (pairwise_cosine rows i) [0 ..< length rows]"
  let ?a = "argsort ?d"
  have row: "row = take 16 ?a" unfolding row_def by (rule cluster_neighbours_row [OF i])
  have len: "length ?a = length rows" by (simp add: argsort_props)
  have seta: "set ?a = {..< length rows}" by (simp add: argsort_props)
  have srt: "sorted (map (\<lambda>j. ?d ! j) ?a)" by (rule argsort_props)
  have eq: "map (\<lambda>j. ?d ! j) ?a = map (pairwise_cosine rows i) ?a"
    using seta by (intro map_cong) auto
  have srt': "sorted (map (pairwise_cosine rows i) ?a)" using srt eq by simp
  show "length row = min 16 (length rows)" by (simp add: row len min.commute)
  show "distinct row" by (simp add: row argsort_props)
  show "set row \<subseteq> {..< length rows}" using set_take_subset [of 16 ?a] seta by (simp add: row)
  show "sorted (map (pairwise_cosine rows i) row)"
    using srt' by (simp add: row take_map [symmetric] sorted_wrt_take)
  show "pairwise_cosine rows i k \<le> pairwise_cosine rows i j"
    if "j < length rows" "j \<notin> set row" "k \<in> set row" for j k
    using sorted_take_le_rest [OF srt' argsort_props(1), of k 16 j] that seta
    by (simp add: row)
  show "i \<in> set row" if "length rows \<le> 16"
    using that i seta len by (simp add: row)
qed

lemma layer_cluster_neighbours_length:
  "layer_cluster_neighbours vls = Inr t \<Longrightarrow> length t = length vls"
  by (induction vls arbitrary: t) (auto split: if_splits sum.splits)

lemma layer_cluster_neighbours_nth:
  assumes "layer_cluster_neighbours vls = Inr t" and "n < length vls"
  shows "t ! n = cluster_neighbours (map the (vls ! n)) \<and> vls ! n \<noteq> [] \<and> None \<notin> set (vls ! n)"
  using assms
proof (induction vls arbitrary: t n)
  case Nil
  then show ?case by simp
next
  case (Cons l ls)
  then show ?case
    by (cases n) (auto split: if_splits sum.splits)
qed

lemma two_cluster_table: "cluster_neighbours [[1, 0], [0, 1]] = [[0, 1], [1, 0]]"
  by (simp add: cluster_neighbours_def argsort_def pairwise_cosine_def cosine_distance_def
      normalize_row_def dot_def upt_conv_Cons)

text \<open>
  Claim C5, as amended. For every layer, the table gives for each cluster the first 16
  clusters of that layer in order of ascending cosine distance between centroid vectors
  (all of them when the layer has fewer than 16): the row has no repetitions, its
  distances are ascending, and no cluster left out is nearer than one in the row. The
  cluster itself is not excluded; it has distance 0 to itself, and in a layer of at most
  16 clusters it is in its own row.
\<close>

theorem neighbour_table_contract:
  assumes "layer_cluster_neighbours centroid_layers = Inr table"
    and "n < length centroid_layers" and "i < length (centroid_layers ! n)"
  shows "let rows = map the (centroid_layers ! n); row = table ! n ! i in
     length row = min 16 (length rows) \<and> distinct row \<and> set row \<subseteq> {..< length rows}
     \<and> sorted (map (pairwise_cosine rows i) row)
     \<and> (\<forall>j < length rows. j \<notin> set row \<longrightarrow>
           (\<forall>k\<in>set row. pairwise_cosine rows i k \<le> pairwise_cosine rows i j))
     \<and> (length rows \<le> 16 \<longrightarrow> i \<in> set row)"
proof -
  have t: "table ! n = cluster_neighbours (map the (centroid_layers ! n))"
    using layer_cluster_neighbours_nth [OF assms(1,2)] by simp
  have i: "i < length (map the (centroid_layers ! n))" using assms(3) by simp
  show ?thesis
    unfolding Let_def t
    using neighbours_props [OF i] by blast
qed

theorem neighbour_table_contract_witness:
  "layer_cluster_neighbours [[Some [1, 0], Some [0, 1]]] = Inr [[[0, 1], [1, 0]]]
   \<and> (0 :: nat) < length [[Some [1, 0 :: real], Some [0, 1]]]
   \<and> (0 :: nat) < length ([[Some [1, 0 :: real], Some [0, 1]]] ! 0)
   \<and> length [0, 1 :: nat] = min 16 2 \<and> distinct [0, 1 :: nat]
   \<and> sorted (map (pairwise_cosine [[1, 0], [0, 1]] 0) [0, 1])
   \<and> (2 :: nat) \<le> 16 \<and> (0 :: nat) \<in> set [0, 1]"
  using neighbour_table_contract [of "[[Some [1, 0], Some [0, 1]]]" "[[[0, 1], [1, 0]]]" 0 0]
  by (simp add: two_cluster_table Let_def)

text \<open>
  Claim C5 as stated fails on a layer of two clusters with centroids \<open>[1, 0]\<close> and
  \<open>[0, 1]\<close>: each cluster is the first entry of its own row.
\<close>

theorem neighbour_table_counterexample:
  "layer_cluster_neighbours [[Some [1, 0], Some [0, 1]]] = Inr [[[0, 1], [1, 0]]]
   \<and> (0 :: nat) \<in> set ([[0, 1], [1, 0]] ! 0) \<and> (1 :: nat) \<in> set ([[0, 1], [1, 0]] ! 1)"
  by (simp add: two_cluster_table)

section \<open>Properties of the prompt loop\<close>

declare shrink_loop.simps [simp del]

lemma shrink_loop_stuck:
  assumes "\<And>d. n_ctx env < length (tokenize env (build_base_prompt env c d))"
    and "n_ctx env < prompt_length"
  shows "shrink_loop env c fuel prompt prompt_length d = None"
  using assms(2)
proof (induction fuel arbitrary: prompt prompt_length d)
  case 0
  then show ?case by (subst shrink_loop.simps) simp
next
  case (Suc fuel)
  show ?case
    using Suc.prems assms(1) [of "d div 2"]
    by (subst shrink_loop.simps) (simp add: Let_def Suc.IH)
qed

lemma example_prompt_long:
  "n_ctx example_prompt_env < length (tokenize example_prompt_env (build_base_prompt example_prompt_env 0 d))"
  by (simp add: example_prompt_env_def)

text \<open>
  Claim C9, where it fails. If every prompt that can be built for cluster 0 is longer
  than the context window, the loop of \<open>fit_base_level_prompts\<close> is still running after
  any number of iterations: the trimmed prompt is never measured and nothing leaves the
  loop, so no list of prompts is produced.
\<close>

theorem overlong_prompt_never_returns:
  assumes "0 < layer_size"
    and "\<And>d. n_ctx env < length (tokenize env (build_base_prompt env 0 d))"
  shows "fit_base_level_prompts env fuel layer_size max_docs_per_cluster = None"
proof -
  have "cluster_prompt env fuel max_docs_per_cluster 0 = None"
    unfolding cluster_prompt_def Let_def
    by (rule shrink_loop_stuck) (use assms(2) in auto)
  moreover have "[0 ..< layer_size] = 0 # [1 ..< layer_size]"
    using assms(1) by (simp add: upt_conv_Cons)
  ultimately show ?thesis
    by (simp add: fit_base_level_prompts_def)
qed

theorem overlong_prompt_never_returns_witness:
  "(0 :: nat) < 1 \<and> fit_base_level_prompts example_prompt_env 1000 1 100 = None"
  using overlong_prompt_never_returns [of 1 example_prompt_env 1000 100] example_prompt_long
  by simp

section \<open>Properties of \<open>clean_topic_names\<close>\<close>

declare remedy_loop.simps [simp del]

lemma remedy_loop_bound:
  assumes "remedy_loop env U u a r = (u', a', r')" and "a \<le> 8"
  shows "a' \<le> 8 \<and> (u' \<notin> U \<or> a' = 8)"
  using assms
proof (induction env U u a r rule: remedy_loop.induct)
  case (1 env U u a r)
  show ?case
  proof (cases "u \<in> U \<and> a < 8")
    case True
    with "1.prems" have "remedy_loop env U (tidy_reply env (complete env r)) (Suc a) (Suc r) = (u', a', r')"
      by (subst (asm) remedy_loop.simps) simp
    from "1.IH" [OF True this] True show ?thesis by simp
  next
    case False
    with "1.prems" have "u' = u" "a' = a"
      by (subst (asm) remedy_loop.simps, simp)+
    with False "1.prems"(2) show ?thesis by auto
  qed
qed

lemma clean_cluster_ok:
  assumes "clean_cluster env n i name indices st = Inr st'" and "committed_ok st"
  shows "committed_ok st'"
proof -
  obtain u a r where loop: "remedy_loop env (unique_names st)
      (capwords env (py_strip strip_char name)) 0 (requests st) = (u, a, r)"
    by (cases "remedy_loop env (unique_names st) (capwords env (py_strip strip_char name)) 0 (requests st)") auto
  from remedy_loop_bound [OF loop] have a: "a \<le> 8" "u \<notin> unique_names st \<or> a = 8" by auto
  from assms(1) loop have c: "committed st' = committed st @ [(n, i, u, a)]"
    and un: "unique_names st' = insert u (unique_names st)"
    by (auto simp: clean_cluster_def Let_def split: if_splits)
  have 1: "\<forall>e\<in>set (committed st'). snd (snd (snd e)) \<le> 8 \<and> fst (snd (snd e)) \<in> unique_names st'"
    using assms(2) a(1) by (auto simp: committed_ok_def c un)
  have 2: "snd (snd (snd (committed st' ! q))) = 8"
    if q: "q < length (committed st')" and p: "p < q"
      and eq: "fst (snd (snd (committed st' ! p))) = fst (snd (snd (committed st' ! q)))" for p q
  proof (cases "q < length (committed st)")
    case True
    with assms(2) p eq show ?thesis by (auto simp: committed_ok_def c nth_append)
  next
    case False
    with q have qe: "q = length (committed st)" by (simp add: c)
    with p have "committed st ! p \<in> set (committed st)" by simp
    then have "fst (snd (snd (committed st ! p))) \<in> unique_names st"
      using assms(2) by (auto simp: committed_ok_def)
    with eq qe p have "u \<in> unique_names st" by (simp add: c nth_append)
    with a(2) qe show ?thesis by (simp add: c)
  qed
  from 1 2 show ?thesis unfolding committed_ok_def by blast
qed

lemma clean_layer_ok:
  "clean_layer env n i pairs st = Inr st' \<Longrightarrow> committed_ok st \<Longrightarrow> committed_ok st'"
proof (induction pairs arbitrary: i st)
  case Nil
  then show ?case by simp
next
  case (Cons pr rest)
  obtain name indices where pr: "pr = (name, indices)" by (cases pr)
  from Cons.prems show ?case
    by (auto simp: pr split: sum.splits dest: clean_cluster_ok intro: Cons.IH)
qed

lemma clean_layers_ok:
  "clean_layers env names psets todo st = Inr st' \<Longrightarrow> committed_ok st \<Longrightarrow> committed_ok st'"
proof (induction todo arbitrary: st)
  case Nil
  then show ?case by simp
next
  case (Cons n ns)
  from Cons.prems show ?case
    by (auto split: sum.splits if_splits dest: clean_layer_ok intro: Cons.IH)
qed

lemma clean_cluster_processed:
  "clean_cluster env n i name indices st = Inr st'
     \<Longrightarrow> processed (committed st') = processed (committed st) @ [(n, i)]"
  by (auto simp: clean_cluster_def Let_def processed_def split: if_splits prod.splits)

lemma clean_layer_processed:
  "clean_layer env n i pairs st = Inr st'
     \<Longrightarrow> processed (committed st')
         = processed (committed st) @ map (Pair n) [i ..< i + length pairs]"
proof (induction pairs arbitrary: i st)
  case Nil
  then show ?case by simp
next
  case (Cons pr rest)
  obtain name indices where pr: "pr = (name, indices)" by (cases pr)
  from Cons.prems obtain st1 where 1: "clean_cluster env n i name indices st = Inr st1"
    and 2: "clean_layer env n (Suc i) rest st1 = Inr st'"
    by (auto simp: pr split: sum.splits)
  have "[i ..< i + length (pr # rest)] = i # [Suc i ..< Suc i + length rest]"
    by (simp add: upt_conv_Cons del: upt_Suc)
  then show ?case
    using Cons.IH [OF 2] clean_cluster_processed [OF 1]
    by (simp del: upt_Suc)
qed

lemma clean_layers_processed:
  "clean_layers env names psets todo st = Inr st'
     \<Longrightarrow> processed (committed st')
         = processed (committed st)
           @ concat (map (\<lambda>n. map (Pair n) [0 ..< min (length (names ! n)) (length (psets ! n))]) todo)"
proof (induction todo arbitrary: st)
  case Nil
  then show ?case by simp
next
  case (Cons n ns)
  from Cons.prems obtain st1 where 1: "clean_layer env n 0 (zip (names ! n) (psets ! n)) st = Inr st1"
    and 2: "clean_layers env names psets ns st1 = Inr st'"
    by (auto split: sum.splits if_splits)
  show ?case
    using Cons.IH [OF 2] clean_layer_processed [OF 1] by simp
qed

lemma clean_topic_names_processed:
  assumes "clean_topic_names env n_documents topic_name_layers cluster_pointsets = Inr st"
  shows "processed (committed st)
     = concat (map (\<lambda>n. map (Pair n)
          [0 ..< min (length (topic_name_layers ! n)) (length (cluster_pointsets ! n))])
        (rev [0 ..< length topic_name_layers]))"
  using clean_layers_processed [OF assms [unfolded clean_topic_names_def]] by (simp add: processed_def)

lemma echo_run:
  "clean_topic_names echo_env 3 [[''Research'', ''Research'']] [[[0, 1], [2]]] = Inr echo_state"
  by code_simp

text \<open>
  Claim C7, as amended. After a pass that returns, for any two clusters, the second
  processed after the first (in particular two clusters of one layer that both got the
  raw name \<open>Research\<close>): each used at most 8 re-prompt attempts, both committed names are
  in the set of used names, and the two committed names differ unless the second cluster
  used all 8 attempts (the name it has then is committed even when it is a duplicate).
\<close>

theorem deduplication_contract:
  assumes "clean_topic_names env n_documents topic_name_layers cluster_pointsets = Inr st"
    and "q < length (committed st)" and "p < q"
    and "committed st ! p = (n1, i1, name1, attempts1)"
    and "committed st ! q = (n2, i2, name2, attempts2)"
  shows "attempts1 \<le> 8 \<and> attempts2 \<le> 8 \<and> name1 \<in> unique_names st \<and> name2 \<in> unique_names st
     \<and> (name1 = name2 \<longrightarrow> attempts2 = 8)"
proof -
  have "committed_ok st"
    using assms(1) unfolding clean_topic_names_def
    by (rule clean_layers_ok) (simp add: committed_ok_def)
  moreover have "committed st ! p \<in> set (committed st)" "committed st ! q \<in> set (committed st)"
    using assms(2,3) by auto
  ultimately show ?thesis
    using assms(2-5) unfolding committed_ok_def
    by (metis fst_conv snd_conv)
qed

theorem deduplication_contract_witness:
  "clean_topic_names echo_env 3 [[''Research'', ''Research'']] [[[0, 1], [2]]] = Inr echo_state
   \<and> (1 :: nat) < length (committed echo_state) \<and> (0 :: nat) < 1
   \<and> committed echo_state ! 0 = (0, 0, ''Research'', 0)
   \<and> committed echo_state ! 1 = (0, 1, ''Research'', 8)
   \<and> (0 :: nat) \<le> 8 \<and> (8 :: nat) \<le> 8 \<and> ''Research'' \<in> unique_names echo_state
   \<and> ''Research'' = ''Research'' \<and> (8 :: nat) = 8"
  using deduplication_contract [OF echo_run, of 1 0 0 0 "''Research''" 0 0 1 "''Research''" 8]
    echo_run
  by (simp add: echo_state_def)

text \<open>
  Claim C7 as stated fails when the model keeps answering \<open>Research\<close>: after 8 attempts
  the second cluster is committed under the same name as the first.
\<close>

theorem deduplication_counterexample:
  "map_sum id committed
     (clean_topic_names echo_env 3 [[''Research'', ''Research'']] [[[0, 1], [2]]])
     = Inr [(0, 0, ''Research'', 0), (0, 1, ''Research'', 8)]"
  using echo_run by (simp add: echo_state_def)

end
